theory Spec2Isabelle
  imports Main "HOL-Library.AList" "HOL-Library.Product_Lexorder"
begin

unbundle bit_operations_syntax

section \<open>Data model\<close>

text \<open>
  A Python \<^verbatim>\<open>str\<close> is a sequence of Unicode code points, so a string is a list of
  naturals (one per code point); \<^verbatim>\<open>bytes\<close> and \<^verbatim>\<open>bytearray\<close> are lists of
  naturals below 256. Python integers are unbounded: lengths and offsets that the code
  derives from \<^verbatim>\<open>len\<close> are naturals, values that come from a manifest or the
  command line are integers.
\<close>

type_synonym ustring = "nat list"
type_synonym bytes = "nat list"

definition ustr :: "string \<Rightarrow> ustring" where
  "ustr s = map of_char s"

text \<open>
  Every exception the modelled code can raise, as a value; \<open>SystemExit\<close> is
  \<^verbatim>\<open>sys.exit\<close> with a message.
\<close>

datatype exit_reason =
    NameCountMismatch nat
  | NamesBlobTooLarge nat
  | OffsetOutOfRange nat nat
  | BlockCountOverflow

datatype error =
    KeyError ustring
  | TypeError
  | AttributeError
  | IndexError
  | IOError
  | ParseError ustring
  | ByteRangeError int
  | UnmappedCharacters ustring "(nat \<times> nat) list"
  | MissingCardName nat
  | PatchExceedsFile int nat nat
  | SystemExit exit_reason

text \<open>
  \<^verbatim>\<open>rom[i] = v\<close> on a bytearray: a negative index counts from the end, an index
  outside the buffer raises IndexError. \<^verbatim>\<open>rom[a:b] = data\<close> never raises: both
  bounds are clamped into the buffer (negative ones after adding the length), an empty
  or inverted range inserts at its start.
\<close>

definition bytearray_setitem :: "bytes \<Rightarrow> int \<Rightarrow> nat \<Rightarrow> error + bytes" where
  "bytearray_setitem rom i v =
     (let n = int (length rom); j = (if i < 0 then i + n else i)
      in if 0 \<le> j \<and> j < n then Inr (rom[nat j := v]) else Inl IndexError)"

definition slice_index :: "nat \<Rightarrow> int \<Rightarrow> nat" where
  "slice_index n i = (if i < 0 then nat (max (i + int n) 0) else min (nat i) n)"

definition bytearray_setslice :: "bytes \<Rightarrow> int \<Rightarrow> int \<Rightarrow> bytes \<Rightarrow> bytes" where
  "bytearray_setslice rom start stop data =
     (let a = slice_index (length rom) start;
          b = max a (slice_index (length rom) stop)
      in take a rom @ data @ drop b rom)"

section \<open>The name-table relocation engine (tools/rom\_names.py)\<close>

definition POCKETSTATION_MEM_BASE :: int where "POCKETSTATION_MEM_BASE = 0x02000000"
definition TITLE_BLOCK_COUNT_OFFSET :: int where "TITLE_BLOCK_COUNT_OFFSET = 0x03"
definition BLOCK_SIZE :: nat where "BLOCK_SIZE = 0x2000"
definition EXPECTED_CARD_COUNT :: nat where "EXPECTED_CARD_COUNT = 722"
definition NAME_MARKER :: bytes where "NAME_MARKER = [0xFA, 0x21]"
definition CARD_ENTRY_SIZE :: nat where "CARD_ENTRY_SIZE = 6"
definition CARD_INDEX_HEADER_SIZE :: int where "CARD_INDEX_HEADER_SIZE = 4"

subsection \<open>normalizeName, encodeName\<close>

text \<open>
  The replacement table of \<^verbatim>\<open>normalizeName\<close>: curly quotes, dashes, the fullwidth
  and numero hash signs and the ideographic space, each mapped to its ASCII form.
\<close>

definition replacements :: "nat \<rightharpoonup> nat" where
  "replacements =
     [0x2019 \<mapsto> 0x27, 0x2018 \<mapsto> 0x27, 0x201C \<mapsto> 0x22, 0x201D \<mapsto> 0x22,
      0x2013 \<mapsto> 0x2D, 0x2014 \<mapsto> 0x2D, 0xFF03 \<mapsto> 0x23, 0x2116 \<mapsto> 0x23,
      0x3000 \<mapsto> 0x20]"

definition normalizeName :: "ustring \<Rightarrow> ustring" where
  "normalizeName name =
     map (\<lambda>ch. case replacements ch of Some r \<Rightarrow> r | None \<Rightarrow> ch) name"

text \<open>
  \<^verbatim>\<open>missing[ch] = missing.get(ch, 0) + 1\<close> on a dictionary that keeps insertion
  order: an association list with distinct keys.
\<close>

definition missing_bump :: "(nat \<times> nat) list \<Rightarrow> nat \<Rightarrow> (nat \<times> nat) list" where
  "missing_bump missing ch =
     AList.update ch ((case map_of missing ch of Some n \<Rightarrow> n | None \<Rightarrow> 0) + 1) missing"

text \<open>
  The loop of \<^verbatim>\<open>encodeName\<close> over the normalised name. The remap dictionary is keyed
  by strings and looked up with the one-character string \<open>[ch]\<close>; its values are the
  integers \<^verbatim>\<open>int(hx, 16)\<close> produced, and \<^verbatim>\<open>out.append\<close> raises ValueError for
  one outside \<open>0..255\<close>.
\<close>

fun encode_loop ::
  "ustring \<Rightarrow> (ustring \<rightharpoonup> int) \<Rightarrow> bool \<Rightarrow> bytes \<Rightarrow> (nat \<times> nat) list
     \<Rightarrow> error + (bytes \<times> (nat \<times> nat) list)" where
  "encode_loop [] remap strict out missing = Inr (out, missing)"
| "encode_loop (ch # rest) remap strict out missing =
     (case remap [ch] of
        Some v \<Rightarrow>
          if 0 \<le> v \<and> v < 256 then encode_loop rest remap strict (out @ [nat v]) missing
          else Inl (ByteRangeError v)
      | None \<Rightarrow>
          if strict then encode_loop rest remap strict out (missing_bump missing ch)
          else encode_loop rest remap strict
                 (out @ [if 0x20 \<le> ch \<and> ch \<le> 0x7E then ch else 0x20]) missing)"

text \<open>
  The error of strict mode carries what the message prints: the normalised name and
  \<^verbatim>\<open>sorted(missing.items())\<close>, the (character, count) pairs in tuple order.
\<close>

definition encodeName :: "ustring \<Rightarrow> (ustring \<rightharpoonup> int) \<Rightarrow> bool \<Rightarrow> error + bytes" where
  "encodeName name remap strict =
     (let name' = normalizeName name in
      case encode_loop name' remap strict [] [] of
        Inl e \<Rightarrow> Inl e
      | Inr (out, missing) \<Rightarrow>
          if strict \<and> missing \<noteq> [] then Inl (UnmappedCharacters name' (sort missing))
          else Inr out)"

subsection \<open>buildNameBlobAndOffsets\<close>

text \<open>
  The loop over \<^verbatim>\<open>enumerate(names)\<close>: \<open>i\<close> is the index of the head of the list.
  \<^verbatim>\<open>offsets[i] = start\<close> raises IndexError once \<open>i\<close> reaches the length of the
  preallocated offsets list.
\<close>

fun build_loop ::
  "nat \<Rightarrow> ustring list \<Rightarrow> (ustring \<rightharpoonup> int) \<Rightarrow> bytes \<Rightarrow> nat list
     \<Rightarrow> error + (bytes \<times> nat list)" where
  "build_loop i [] remap buf offsets = Inr (buf, offsets)"
| "build_loop i (name # rest) remap buf offsets =
     (let start = length buf in
      if 0 < i \<and> \<not> i < length offsets then Inl IndexError
      else
        let offsets' = (if 0 < i then offsets[i := start] else offsets) in
        case encodeName name remap True of
          Inl e \<Rightarrow> Inl e
        | Inr enc \<Rightarrow> build_loop (i + 1) rest remap (buf @ enc @ [0x00]) offsets')"

definition buildNameBlobAndOffsets ::
  "ustring list \<Rightarrow> (ustring \<rightharpoonup> int) \<Rightarrow> error + (bytes \<times> nat list)" where
  "buildNameBlobAndOffsets names remap =
     (case build_loop 0 names remap NAME_MARKER (replicate EXPECTED_CARD_COUNT 0) of
        Inl e \<Rightarrow> Inl e
      | Inr (buf, offsets) \<Rightarrow>
          let pad = nat ((- int (length buf)) mod int BLOCK_SIZE) in
          Inr (if pad \<noteq> 0 then buf @ replicate pad 0xFF else buf, offsets))"

subsection \<open>Index, pointer and header patchers\<close>

definition computeBlockCount :: "nat \<Rightarrow> nat" where
  "computeBlockCount effectiveSize = (effectiveSize + BLOCK_SIZE - 1) div BLOCK_SIZE"

text \<open>
  The loop of \<^verbatim>\<open>patchCardIndexNameOffsets\<close> over \<^verbatim>\<open>range(EXPECTED_CARD_COUNT)\<close>;
  reading \<^verbatim>\<open>nameOffsetsInBlob[i]\<close> past the end of the list raises IndexError.
\<close>

fun patch_index_loop :: "nat list \<Rightarrow> bytes \<Rightarrow> int \<Rightarrow> nat list \<Rightarrow> error + bytes" where
  "patch_index_loop [] rom fileFirstCardOffset nameOffsetsInBlob = Inr rom"
| "patch_index_loop (i # rest) rom fileFirstCardOffset nameOffsetsInBlob =
     (let entryBase = fileFirstCardOffset + int i * int CARD_ENTRY_SIZE;
          nameOffPos = entryBase + 4
      in if \<not> i < length nameOffsetsInBlob then Inl IndexError
         else
           let v = (nameOffsetsInBlob ! i) AND 0xFFFF in
           case bytearray_setitem rom nameOffPos (v AND 0xFF) of
             Inl e \<Rightarrow> Inl e
           | Inr rom1 \<Rightarrow>
               (case bytearray_setitem rom1 (nameOffPos + 1) (drop_bit 8 v AND 0xFF) of
                  Inl e \<Rightarrow> Inl e
                | Inr rom2 \<Rightarrow>
                    patch_index_loop rest rom2 fileFirstCardOffset nameOffsetsInBlob))"

definition patchCardIndexNameOffsets :: "bytes \<Rightarrow> int \<Rightarrow> nat list \<Rightarrow> error + bytes" where
  "patchCardIndexNameOffsets rom fileFirstCardOffset nameOffsetsInBlob =
     patch_index_loop [0..<EXPECTED_CARD_COUNT] rom fileFirstCardOffset nameOffsetsInBlob"

definition setCardNamePointer :: "bytes \<Rightarrow> int \<Rightarrow> int \<Rightarrow> error + bytes" where
  "setCardNamePointer rom filePointerOffset cardNameRomOffset =
     (let ptr = POCKETSTATION_MEM_BASE + cardNameRomOffset in
      case bytearray_setitem rom (filePointerOffset + 0) (nat (ptr AND 0xFF)) of
        Inl e \<Rightarrow> Inl e
      | Inr rom1 \<Rightarrow>
      (case bytearray_setitem rom1 (filePointerOffset + 1) (nat (drop_bit 8 ptr AND 0xFF)) of
        Inl e \<Rightarrow> Inl e
      | Inr rom2 \<Rightarrow>
      (case bytearray_setitem rom2 (filePointerOffset + 2) (nat (drop_bit 16 ptr AND 0xFF)) of
        Inl e \<Rightarrow> Inl e
      | Inr rom3 \<Rightarrow>
         bytearray_setitem rom3 (filePointerOffset + 3) (nat (drop_bit 24 ptr AND 0xFF)))))"

definition ensureRomSize :: "bytes \<Rightarrow> int \<Rightarrow> bytes" where
  "ensureRomSize rom requiredSize =
     (if int (length rom) < requiredSize
      then rom @ replicate (nat (requiredSize - int (length rom))) 0xFF
      else rom)"

definition injectBlob :: "bytes \<Rightarrow> int \<Rightarrow> bytes \<Rightarrow> bytes" where
  "injectBlob rom fileAt blob =
     (let end_pos = fileAt + int (length blob);
          rom' = ensureRomSize rom end_pos
      in bytearray_setslice rom' fileAt end_pos blob)"

text \<open>
  \<^verbatim>\<open>updateBlockCountHeader\<close> returns the block count and leaves the buffer with the
  low byte of the count at the header position.
\<close>

definition updateBlockCountHeader :: "bytes \<Rightarrow> int \<Rightarrow> nat \<Rightarrow> error + (bytes \<times> nat)" where
  "updateBlockCountHeader rom fileHeaderBlockCountPos effectiveSize =
     (let newBlocks = computeBlockCount effectiveSize in
      case bytearray_setitem rom fileHeaderBlockCountPos (newBlocks AND 0xFF) of
        Inl e \<Rightarrow> Inl e
      | Inr rom' \<Rightarrow> Inr (rom', newBlocks))"

section \<open>The generic patch engine (tools/rom\_patches.py)\<close>

text \<open>
  A manifest is what \<^verbatim>\<open>json.load\<close> returns. The code inspects the dynamic type of each
  piece (\<^verbatim>\<open>isinstance\<close>), so the model keeps JSON values as a datatype; an object is
  an association list with distinct keys, in file order. Of a floating-point number the
  code only observes whether it is zero (its truth value); that is what \<open>JFloat\<close> carries.
\<close>

datatype json =
    JNull
  | JBool bool
  | JInt int
  | JFloat bool
  | JStr ustring
  | JArr "json list"
  | JObj "(ustring \<times> json) list"

text \<open>
  Python's own string functions are not code of the repository; they are parameters of
  the model: \<^verbatim>\<open>int(s, base)\<close> (\<open>None\<close> where it raises ValueError),
  \<^verbatim>\<open>str.lower\<close> and \<^verbatim>\<open>str.isspace\<close> of one character.
\<close>

record builtins =
  py_int :: "nat \<Rightarrow> ustring \<Rightarrow> int option"
  py_lower :: "ustring \<Rightarrow> ustring"
  py_isspace :: "nat \<Rightarrow> bool"

definition strip :: "builtins \<Rightarrow> ustring \<Rightarrow> ustring" where
  "strip B s = rev (dropWhile (py_isspace B) (rev (dropWhile (py_isspace B) s)))"

fun split_loop :: "(nat \<Rightarrow> bool) \<Rightarrow> ustring \<Rightarrow> ustring \<Rightarrow> ustring list" where
  "split_loop sp [] cur = (if cur = [] then [] else [cur])"
| "split_loop sp (c # cs) cur =
     (if sp c then (if cur = [] then split_loop sp cs [] else cur # split_loop sp cs [])
      else split_loop sp cs (cur @ [c]))"

definition split :: "builtins \<Rightarrow> ustring \<Rightarrow> ustring list" where
  "split B s = split_loop (py_isspace B) s []"

text \<open>The truth value Python gives a JSON value in \<^verbatim>\<open>not active\<close>.\<close>

fun truthy :: "json \<Rightarrow> bool" where
  "truthy JNull = False"
| "truthy (JBool b) = b"
| "truthy (JInt n) = (n \<noteq> 0)"
| "truthy (JFloat nonzero) = nonzero"
| "truthy (JStr s) = (s \<noteq> [])"
| "truthy (JArr xs) = (xs \<noteq> [])"
| "truthy (JObj kvs) = (kvs \<noteq> [])"

text \<open>
  \<^verbatim>\<open>parse_hex_or_int\<close>: an \<^verbatim>\<open>int\<close> (a JSON boolean is one) is returned as it is;
  anything else goes through \<^verbatim>\<open>str(x).strip()\<close>, and the text of a null, a float, a
  list or an object is never an integer literal.
\<close>

definition parse_text :: "builtins \<Rightarrow> ustring \<Rightarrow> error + int" where
  "parse_text B x =
     (let s = strip B x in
      case (if take 2 (py_lower B s) = ustr ''0x'' then py_int B 16 s else py_int B 10 s) of
        Some n \<Rightarrow> Inr n
      | None \<Rightarrow> Inl (ParseError s))"

fun parse_hex_or_int :: "builtins \<Rightarrow> json \<Rightarrow> error + int" where
  "parse_hex_or_int B (JInt n) = Inr n"
| "parse_hex_or_int B (JBool b) = Inr (if b then 1 else 0)"
| "parse_hex_or_int B (JStr s) = parse_text B s"
| "parse_hex_or_int B x = Inl (ParseError [])"

text \<open>
  \<^verbatim>\<open>parse_value_to_bytes\<close>: the loop over the parts, then the function. Both branches
  of the prefix test read the token in base 16.
\<close>

fun parse_parts :: "builtins \<Rightarrow> json list \<Rightarrow> bytes \<Rightarrow> error + bytes" where
  "parse_parts B [] out = Inr out"
| "parse_parts B (JInt n # ps) out = parse_parts B ps (out @ [nat (n AND 0xFF)])"
| "parse_parts B (JBool b # ps) out = parse_parts B ps (out @ [if b then 1 else 0])"
| "parse_parts B (JStr p # ps) out =
     (let s = strip B p in
      case py_int B 16 s of
        Some n \<Rightarrow> parse_parts B ps (out @ [nat (n AND 0xFF)])
      | None \<Rightarrow> Inl (ParseError s))"
| "parse_parts B (p # ps) out = Inl (ParseError [])"

fun parse_value_to_bytes :: "builtins \<Rightarrow> json \<Rightarrow> error + bytes" where
  "parse_value_to_bytes B (JStr s) =
     parse_parts B
       (map JStr (filter (\<lambda>p. p \<noteq> [])
          (split B (map (\<lambda>c. if c = 0x2C then 0x20 else c) s)))) []"
| "parse_value_to_bytes B (JArr parts) = parse_parts B parts []"
| "parse_value_to_bytes B v = Inl TypeError"

text \<open>
  \<^verbatim>\<open>find_language_section\<close>: the exact key first, then the first key of the manifest
  that agrees with the requested one after \<^verbatim>\<open>lower()\<close>.
\<close>

definition find_language_section ::
  "builtins \<Rightarrow> (ustring \<times> json) list \<Rightarrow> ustring \<Rightarrow> error + json" where
  "find_language_section B manifest lang_key =
     (case map_of manifest lang_key of
        Some sect \<Rightarrow> Inr sect
      | None \<Rightarrow>
          (case find (\<lambda>k. py_lower B k = py_lower B lang_key) (map fst manifest) of
             Some k \<Rightarrow> (case map_of manifest k of
                          Some sect \<Rightarrow> Inr sect
                        | None \<Rightarrow> Inl (KeyError k))
           | None \<Rightarrow> Inl (KeyError lang_key)))"

text \<open>What \<^verbatim>\<open>apply_patches\<close> prints for an entry: the plan of a dry run, or the write.\<close>

datatype report =
    WouldWrite json nat int int
  | Patched json nat int

text \<open>
  \<^verbatim>\<open>for entry in patches\<close> over a JSON value: a list gives its elements, an object
  its keys, a string its characters; anything else is not iterable.
\<close>

fun iterate :: "json \<Rightarrow> error + json list" where
  "iterate (JArr xs) = Inr xs"
| "iterate (JObj kvs) = Inr (map (\<lambda>kv. JStr (fst kv)) kvs)"
| "iterate (JStr s) = Inr (map (\<lambda>c. JStr [c]) s)"
| "iterate v = Inl TypeError"

text \<open>
  The loop of \<^verbatim>\<open>apply_patches\<close>. The bytearray is mutated in place, so the loop
  returns the buffer as it stands when the function returns or raises, with what was
  printed and the result (the total, or the exception).
\<close>

fun apply_loop ::
  "builtins \<Rightarrow> json list \<Rightarrow> bytes \<Rightarrow> int \<Rightarrow> bool \<Rightarrow> ustring option \<Rightarrow> bool
     \<Rightarrow> nat \<Rightarrow> report list \<Rightarrow> (error + nat) \<times> bytes \<times> report list" where
  "apply_loop B [] rom_bytes base_offset include_inactive only_name dry_run count out =
     (Inr count, rom_bytes, out)"
| "apply_loop B (JObj entry # rest) rom_bytes base_offset include_inactive only_name dry_run
       count out =
     (let name = (case map_of entry (ustr ''name'') of
                    Some n \<Rightarrow> n | None \<Rightarrow> JStr (ustr ''(unnamed)''));
          active = (case map_of entry (ustr ''active'') of
                      Some a \<Rightarrow> a | None \<Rightarrow> JBool True)
      in
      if (case only_name of None \<Rightarrow> False | Some n \<Rightarrow> n \<noteq> [] \<and> name \<noteq> JStr n) then
        apply_loop B rest rom_bytes base_offset include_inactive only_name dry_run count out
      else if \<not> truthy active \<and> \<not> include_inactive then
        apply_loop B rest rom_bytes base_offset include_inactive only_name dry_run count out
      else
        case map_of entry (ustr ''addr'') of
          None \<Rightarrow> (Inl (KeyError (ustr ''addr'')), rom_bytes, out)
        | Some a \<Rightarrow>
        (case parse_hex_or_int B a of
          Inl e \<Rightarrow> (Inl e, rom_bytes, out)
        | Inr addr \<Rightarrow>
        (case map_of entry (ustr ''value'') of
          None \<Rightarrow> (Inl (KeyError (ustr ''value'')), rom_bytes, out)
        | Some v \<Rightarrow>
        (case parse_value_to_bytes B v of
          Inl e \<Rightarrow> (Inl e, rom_bytes, out)
        | Inr data \<Rightarrow>
            let start = base_offset + addr;
                end_pos = start + int (length data)
            in
            if end_pos > int (length rom_bytes) then
              (Inl (PatchExceedsFile addr (length data) (length rom_bytes)), rom_bytes, out)
            else if dry_run then
              apply_loop B rest rom_bytes base_offset include_inactive only_name dry_run
                (count + length data) (out @ [WouldWrite name (length data) start addr])
            else
              apply_loop B rest (bytearray_setslice rom_bytes start end_pos data) base_offset
                include_inactive only_name dry_run
                (count + length data) (out @ [Patched name (length data) start])))))"
| "apply_loop B (entry # rest) rom_bytes base_offset include_inactive only_name dry_run
       count out =
     apply_loop B rest rom_bytes base_offset include_inactive only_name dry_run count out"

definition apply_patches ::
  "builtins \<Rightarrow> bytes \<Rightarrow> int \<Rightarrow> json \<Rightarrow> bool \<Rightarrow> ustring option \<Rightarrow> bool
     \<Rightarrow> (error + nat) \<times> bytes \<times> report list" where
  "apply_patches B rom_bytes base_offset patches include_inactive only_name dry_run =
     (case iterate patches of
        Inl e \<Rightarrow> (Inl e, rom_bytes, [])
      | Inr entries \<Rightarrow>
          apply_loop B entries rom_bytes base_offset include_inactive only_name dry_run 0 [])"

subsection \<open>The command-line run of the patch engine\<close>

record patches_args =
  pa_language :: ustring
  pa_raw :: bool
  pa_mcs :: bool
  pa_offset :: "ustring option"
  pa_only :: "ustring option"
  pa_include_inactive :: bool
  pa_dry_run :: bool

text \<open>The two closing lines of \<^verbatim>\<open>main\<close>, with the total they print.\<close>

datatype summary = DryRunComplete nat | Done nat

text \<open>
  The call of \<^verbatim>\<open>apply_patches\<close> as \<^verbatim>\<open>main\<close> writes it: base offset, patches,
  \<^verbatim>\<open>include_inactive\<close> and \<^verbatim>\<open>only_name\<close> are passed, \<^verbatim>\<open>dry_run\<close> is not, so the
  parameter keeps its default \<^verbatim>\<open>False\<close>.
\<close>

definition patches_main_apply ::
  "builtins \<Rightarrow> patches_args \<Rightarrow> bytes \<Rightarrow> int \<Rightarrow> json
     \<Rightarrow> (error + nat) \<times> bytes \<times> report list" where
  "patches_main_apply B args rom_bytes base_offset patches =
     apply_patches B rom_bytes base_offset patches (pa_include_inactive args) (pa_only args) False"

text \<open>
  \<^verbatim>\<open>main\<close> of rom\_patches.py. The file on disk is \<open>None\<close> when it does not exist
  (reading it raises). The result is the exit status or the exception, the file on disk
  after the run, and what was printed.
\<close>

definition patches_main ::
  "builtins \<Rightarrow> patches_args \<Rightarrow> (ustring \<times> json) list \<Rightarrow> bytes option
     \<Rightarrow> (error + int) \<times> bytes option \<times> report list \<times> summary option" where
  "patches_main B args manifest disk =
     (case (case pa_offset args of
              Some text_arg \<Rightarrow>
                if text_arg \<noteq> [] then parse_text B text_arg
                else if pa_mcs args then Inr 0x80 else Inr 0x00
            | None \<Rightarrow> if pa_mcs args then Inr 0x80 else Inr 0x00) of
        Inl e \<Rightarrow> (Inl e, disk, [], None)
      | Inr base_offset \<Rightarrow>
      (case find_language_section B manifest (pa_language args) of
        Inl e \<Rightarrow> (Inl e, disk, [], None)
      | Inr patches \<Rightarrow>
      (case disk of
        None \<Rightarrow> (Inl IOError, disk, [], None)
      | Some content \<Rightarrow>
      (case patches_main_apply B args content base_offset patches of
        (Inl e, rom_bytes, out) \<Rightarrow> (Inl e, disk, out, None)
      | (Inr written, rom_bytes, out) \<Rightarrow>
          if pa_dry_run args then (Inr 0, disk, out, Some (DryRunComplete written))
          else (Inr 0, Some rom_bytes, out, Some (Done written))))))"

section \<open>The command-line run of the relocation engine\<close>

text \<open>
  The cards manifest, with the types its documentation gives: addresses are strings for
  \<^verbatim>\<open>parseHexInt\<close>, the remap list holds \<^verbatim>\<open>{unicode, hex}\<close> entries, and a language
  is a list of \<^verbatim>\<open>{"number": int, "name": str}\<close> items. A key that is absent is
  \<open>None\<close>. \<open>cm_languages\<close> holds the other keys of the object.
\<close>

record remap_entry =
  re_unicode :: "ustring option"
  re_hex :: "ustring option"

record card_item =
  ci_number :: "int option"
  ci_name :: "ustring option"

record cards_manifest =
  cm_card_index_offset :: "ustring option"
  cm_card_name_offset :: "ustring option"
  cm_card_lookup_address :: "ustring option"
  cm_remap :: "remap_entry list option"
  cm_languages :: "(ustring \<times> card_item list) list"

record names_args =
  na_language :: ustring
  na_raw :: bool
  na_mcs :: bool
  na_offset :: "ustring option"
  na_dry_run :: bool
  na_verbose :: bool

definition parseHexInt :: "builtins \<Rightarrow> ustring \<Rightarrow> error + int" where
  "parseHexInt B text_arg = parse_text B text_arg"

fun buildRemapTable_loop ::
  "builtins \<Rightarrow> remap_entry list \<Rightarrow> (ustring \<rightharpoonup> int) \<Rightarrow> error + (ustring \<rightharpoonup> int)" where
  "buildRemapTable_loop B [] table = Inr table"
| "buildRemapTable_loop B (entry # rest) table =
     (let uni = (case re_unicode entry of Some u \<Rightarrow> u | None \<Rightarrow> []) in
      case re_hex entry of
        None \<Rightarrow> buildRemapTable_loop B rest table
      | Some hx \<Rightarrow>
          (case py_int B 16 hx of
             None \<Rightarrow> Inl (ParseError hx)
           | Some code \<Rightarrow> buildRemapTable_loop B rest (table(uni \<mapsto> code))))"

definition buildRemapTable :: "builtins \<Rightarrow> cards_manifest \<Rightarrow> error + (ustring \<rightharpoonup> int)" where
  "buildRemapTable B cardsJson =
     buildRemapTable_loop B (case cm_remap cardsJson of Some l \<Rightarrow> l | None \<Rightarrow> []) Map.empty"

text \<open>
  \<^verbatim>\<open>cardsJson[language]\<close>: the language may name one of the fixed keys. Iterating an
  address string gives characters, and \<^verbatim>\<open>item['number']\<close> on one raises TypeError;
  on a remap entry it raises KeyError.
\<close>

definition language_items :: "cards_manifest \<Rightarrow> ustring \<Rightarrow> error + card_item list" where
  "language_items cardsJson language =
     (let as_text = (\<lambda>field. case field of
                       None \<Rightarrow> None
                     | Some s \<Rightarrow> Some (if s = [] then Inr [] else Inl TypeError));
          fixed =
            (if language = ustr ''card_index_offset'' then as_text (cm_card_index_offset cardsJson)
             else if language = ustr ''card_name_offset'' then as_text (cm_card_name_offset cardsJson)
             else if language = ustr ''card_lookup_address''
               then as_text (cm_card_lookup_address cardsJson)
             else if language = ustr ''remap'' then
               (case cm_remap cardsJson of
                  None \<Rightarrow> None
                | Some l \<Rightarrow> Some (if l = [] then Inr [] else Inl (KeyError (ustr ''number''))))
             else None)
      in case fixed of
           Some r \<Rightarrow> r
         | None \<Rightarrow>
             (case map_of (cm_languages cardsJson) language of
                None \<Rightarrow> Inl (KeyError language)
              | Some items \<Rightarrow> Inr items))"

fun byNum_loop :: "card_item list \<Rightarrow> (int \<rightharpoonup> ustring) \<Rightarrow> error + (int \<rightharpoonup> ustring)" where
  "byNum_loop [] byNum = Inr byNum"
| "byNum_loop (item # rest) byNum =
     (case ci_number item of
        None \<Rightarrow> Inl (KeyError (ustr ''number''))
      | Some num \<Rightarrow>
          (case ci_name item of
             None \<Rightarrow> Inl (KeyError (ustr ''name''))
           | Some name \<Rightarrow> byNum_loop rest (byNum(num \<mapsto> name))))"

fun names_loop :: "nat list \<Rightarrow> (int \<rightharpoonup> ustring) \<Rightarrow> ustring list \<Rightarrow> error + ustring list" where
  "names_loop [] byNum names = Inr names"
| "names_loop (num # rest) byNum names =
     (case byNum (int num) of
        None \<Rightarrow> Inl (MissingCardName num)
      | Some name \<Rightarrow> names_loop rest byNum (names @ [name]))"

definition loadLanguageNames :: "cards_manifest \<Rightarrow> ustring \<Rightarrow> error + ustring list" where
  "loadLanguageNames cardsJson language =
     (case language_items cardsJson language of
        Inl e \<Rightarrow> Inl e
      | Inr items \<Rightarrow>
          (case byNum_loop items Map.empty of
             Inl e \<Rightarrow> Inl e
           | Inr byNum \<Rightarrow> names_loop [1..<EXPECTED_CARD_COUNT + 1] byNum []))"

definition required_key :: "builtins \<Rightarrow> ustring option \<Rightarrow> string \<Rightarrow> error + int" where
  "required_key B field key =
     (case field of None \<Rightarrow> Inl (KeyError (ustr key)) | Some s \<Rightarrow> parseHexInt B s)"

text \<open>
  What \<^verbatim>\<open>main\<close> computes before it touches the file: the base offset, the three
  addresses, the remap table, the names, the blob and the offsets.
\<close>

record plan =
  pl_baseOffset :: int
  pl_cardIndexRomOffset :: int
  pl_cardNameRomOffset :: int
  pl_cardLookupRomAddr :: int
  pl_blob :: bytes
  pl_nameOffsets :: "nat list"

definition names_main_plan :: "builtins \<Rightarrow> names_args \<Rightarrow> cards_manifest \<Rightarrow> error + plan" where
  "names_main_plan B args cardsJson =
     (case (if na_raw args then Inr 0x00
            else if na_mcs args then Inr 0x80
            else (case na_offset args of
                    Some s \<Rightarrow> if s \<noteq> [] then parseHexInt B s else Inr 0x00
                  | None \<Rightarrow> Inr 0x00)) of
        Inl e \<Rightarrow> Inl e
      | Inr base \<Rightarrow>
      (case required_key B (cm_card_index_offset cardsJson) ''card_index_offset'' of
        Inl e \<Rightarrow> Inl e
      | Inr idx \<Rightarrow>
      (case required_key B (cm_card_name_offset cardsJson) ''card_name_offset'' of
        Inl e \<Rightarrow> Inl e
      | Inr nm \<Rightarrow>
      (case required_key B (cm_card_lookup_address cardsJson) ''card_lookup_address'' of
        Inl e \<Rightarrow> Inl e
      | Inr lk \<Rightarrow>
      (case buildRemapTable B cardsJson of
        Inl e \<Rightarrow> Inl e
      | Inr remap \<Rightarrow>
      (case loadLanguageNames cardsJson (na_language args) of
        Inl e \<Rightarrow> Inl e
      | Inr names \<Rightarrow>
      (case buildNameBlobAndOffsets names remap of
        Inl e \<Rightarrow> Inl e
      | Inr (b, offs) \<Rightarrow>
          Inr \<lparr> pl_baseOffset = base, pl_cardIndexRomOffset = idx, pl_cardNameRomOffset = nm,
                pl_cardLookupRomAddr = lk, pl_blob = b, pl_nameOffsets = offs \<rparr>)))))))"

text \<open>The writes of \<^verbatim>\<open>main\<close> on the loaded image, up to the header byte.\<close>

definition names_main_patch :: "plan \<Rightarrow> bytes \<Rightarrow> error + (bytes \<times> nat)" where
  "names_main_patch p rom0 =
     (let fileCardIndexOffset = pl_baseOffset p + pl_cardIndexRomOffset p;
          fileFirstCardOffset = fileCardIndexOffset + CARD_INDEX_HEADER_SIZE;
          fileCardNameOffset = pl_baseOffset p + pl_cardNameRomOffset p;
          filePointerOffset = pl_baseOffset p + pl_cardLookupRomAddr p;
          fileBlockCountPos = pl_baseOffset p + TITLE_BLOCK_COUNT_OFFSET;
          plannedEndFile = max (int (length rom0)) (fileCardNameOffset + int (length (pl_blob p)));
          rom1 = injectBlob rom0 fileCardNameOffset (pl_blob p)
      in
      case patchCardIndexNameOffsets rom1 fileFirstCardOffset (pl_nameOffsets p) of
        Inl e \<Rightarrow> Inl e
      | Inr rom2 \<Rightarrow>
      (case setCardNamePointer rom2 filePointerOffset (pl_cardNameRomOffset p) of
        Inl e \<Rightarrow> Inl e
      | Inr rom3 \<Rightarrow>
          let rom4 = (if int (length rom3) < plannedEndFile
                      then rom3 @ replicate (nat (plannedEndFile - int (length rom3))) 0xFF
                      else rom3);
              effectiveSize = nat (max (int (length rom4) - pl_baseOffset p) 0)
          in updateBlockCountHeader rom4 fileBlockCountPos effectiveSize))"

text \<open>
  \<^verbatim>\<open>main\<close> of rom\_names.py: the exception or the final block count (\<open>None\<close> for a
  dry run), and the file on disk after the run.
\<close>

definition names_main ::
  "builtins \<Rightarrow> names_args \<Rightarrow> cards_manifest \<Rightarrow> bytes option
     \<Rightarrow> (error + nat option) \<times> bytes option" where
  "names_main B args cardsJson disk =
     (case names_main_plan B args cardsJson of
        Inl e \<Rightarrow> (Inl e, disk)
      | Inr p \<Rightarrow>
      (case disk of
        None \<Rightarrow> (Inl IOError, disk)
      | Some rom \<Rightarrow>
          if na_dry_run args then (Inr None, disk)
          else
            (case names_main_patch p rom of
               Inl e \<Rightarrow> (Inl e, disk)
             | Inr (rom', finalBlocks) \<Rightarrow> (Inr (Some finalBlocks), Some rom'))))"

section \<open>The standalone patcher (YGOFM-NamePatch.py)\<close>

text \<open>
  The older script does the same relocation with fixed addresses and no manifest. Its
  \<^verbatim>\<open>sys.exit(message)\<close> calls are the \<open>SystemExit\<close> errors.
\<close>

definition ROM_BASE :: nat where "ROM_BASE = 0x02000000"
definition NAME_LIST_ROM_ADDR :: nat where "NAME_LIST_ROM_ADDR = 0x02008000"
definition LOOKUP_PTR_ROM_ADDR :: nat where "LOOKUP_PTR_ROM_ADDR = 0x02002A7C"
definition CARD_TABLE_ROM_START :: nat where "CARD_TABLE_ROM_START = 0x02004C0C"
definition CARD_TABLE_ROM_END :: nat where "CARD_TABLE_ROM_END = 0x02005CF7"
definition BYTES_PER_CARD :: nat where "BYTES_PER_CARD = 6"
definition START_OF_TEXT :: bytes where "START_OF_TEXT = [0xFA, 0x21]"
definition HEADER_BLOCK_BYTE :: nat where "HEADER_BLOCK_BYTE = 0x03"

definition NAME_LIST_FILE_OFF :: nat where
  "NAME_LIST_FILE_OFF = NAME_LIST_ROM_ADDR - ROM_BASE"
definition LOOKUP_PTR_FILE_OFF :: nat where
  "LOOKUP_PTR_FILE_OFF = LOOKUP_PTR_ROM_ADDR - ROM_BASE"
definition CARD_TABLE_FILE_START :: nat where
  "CARD_TABLE_FILE_START = CARD_TABLE_ROM_START - ROM_BASE"
definition CARD_TABLE_FILE_END :: nat where
  "CARD_TABLE_FILE_END = CARD_TABLE_ROM_END - ROM_BASE"
definition NUM_CARDS :: nat where
  "NUM_CARDS = ((CARD_TABLE_FILE_END - CARD_TABLE_FILE_START) div BYTES_PER_CARD) + 1"

definition le16 :: "nat \<Rightarrow> bytes" where
  "le16 n = [n AND 0xFF, drop_bit 8 n AND 0xFF]"

definition le32 :: "nat \<Rightarrow> bytes" where
  "le32 n = [n AND 0xFF, drop_bit 8 n AND 0xFF, drop_bit 16 n AND 0xFF, drop_bit 24 n AND 0xFF]"

text \<open>
  \<^verbatim>\<open>name.encode("ascii")\<close>, and on UnicodeEncodeError
  \<^verbatim>\<open>name.encode("latin-1", errors="replace")\<close>, which writes a question mark for a
  character beyond U+00FF.
\<close>

definition ascii_or_latin1 :: "ustring \<Rightarrow> bytes" where
  "ascii_or_latin1 name =
     (if list_all (\<lambda>c. c < 0x80) name then name
      else map (\<lambda>c. if c < 0x100 then c else 0x3F) name)"

text \<open>The loop that builds the blob and \<^verbatim>\<open>name_offsets\<close>; \<open>idx\<close> is the index of the head.\<close>

fun name_blob_loop ::
  "nat \<Rightarrow> ustring list \<Rightarrow> bytes \<Rightarrow> nat list \<Rightarrow> nat \<Rightarrow> bytes \<times> nat list" where
  "name_blob_loop idx [] blob_acc name_offsets cursor = (blob_acc, name_offsets)"
| "name_blob_loop idx (name # rest) blob_acc name_offsets cursor =
     (let enc = ascii_or_latin1 name;
          name_offsets' = (if idx = 0 then name_offsets @ [0] else name_offsets @ [cursor]);
          blob_acc' = blob_acc @ enc @ [0x00]
      in name_blob_loop (idx + 1) rest blob_acc' name_offsets' (length blob_acc'))"

text \<open>The loop over \<^verbatim>\<open>range(NUM_CARDS)\<close> that rewrites the offset field of each record.\<close>

fun card_table_loop :: "nat list \<Rightarrow> bytes \<Rightarrow> nat list \<Rightarrow> error + bytes" where
  "card_table_loop [] data name_offsets = Inr data"
| "card_table_loop (i # rest) data name_offsets =
     (let entry_off = CARD_TABLE_FILE_START + i * BYTES_PER_CARD;
          name_off_field = entry_off + 4
      in if \<not> i < length name_offsets then Inl IndexError
         else
           let rel = name_offsets ! i in
           if \<not> rel \<le> 0xFFFF then Inl (SystemExit (OffsetOutOfRange (i + 1) rel))
           else card_table_loop rest
                  (bytearray_setslice data (int name_off_field) (int name_off_field + 2) (le16 rel))
                  name_offsets)"

text \<open>
  The end of \<^verbatim>\<open>main\<close>: pad the image to the next 8 KiB boundary, refuse a block
  count above 255, write the count. \<^verbatim>\<open>math.ceil(new_size / BLOCK_SIZE)\<close> divides by a
  power of two, which is exact in floating point for every size below \<open>2^53\<close>; it is
  the integer ceiling here.
\<close>

definition pad_and_set_block_count :: "bytes \<Rightarrow> error + bytes" where
  "pad_and_set_block_count data =
     (let new_size = length data;
          blocks = (new_size + BLOCK_SIZE - 1) div BLOCK_SIZE;
          padded_size = blocks * BLOCK_SIZE;
          data' = (if padded_size > new_size
                   then data @ replicate (padded_size - new_size) 0x00 else data)
      in
      if padded_size div BLOCK_SIZE > 255 then Inl (SystemExit BlockCountOverflow)
      else bytearray_setitem data' (int HEADER_BLOCK_BYTE) (blocks AND 0xFF))"

text \<open>
  \<^verbatim>\<open>main\<close> from the check of the name count on, on the lines of the card list and
  the bytes of the image.
\<close>

definition namepatch_image :: "ustring list \<Rightarrow> bytes \<Rightarrow> error + bytes" where
  "namepatch_image list_lines gme =
     (let names = filter (\<lambda>n. n \<noteq> [])
                    (map (\<lambda>ln. rev (dropWhile (\<lambda>c. c = 0x0D \<or> c = 0x0A) (rev ln))) list_lines)
      in
      if length names \<noteq> NUM_CARDS then Inl (SystemExit (NameCountMismatch (length names)))
      else
        let data0 = (if length gme < NAME_LIST_FILE_OFF
                     then gme @ replicate (NAME_LIST_FILE_OFF - length gme) 0x00 else gme);
            (name_blob, name_offsets) =
               name_blob_loop 0 names START_OF_TEXT [] (length START_OF_TEXT)
        in
        if int (length name_blob) - 1 > 0xFFFF
        then Inl (SystemExit (NamesBlobTooLarge (length name_blob)))
        else
          let end_pos = NAME_LIST_FILE_OFF + length name_blob;
              data1 = (if length data0 < end_pos
                       then data0 @ replicate (end_pos - length data0) 0x00 else data0);
              data2 = bytearray_setslice data1 (int NAME_LIST_FILE_OFF) (int end_pos) name_blob;
              data3 = bytearray_setslice data2 (int LOOKUP_PTR_FILE_OFF)
                        (int LOOKUP_PTR_FILE_OFF + 4) (le32 NAME_LIST_ROM_ADDR)
          in
          case card_table_loop [0..<NUM_CARDS] data3 name_offsets of
            Inl e \<Rightarrow> Inl e
          | Inr data4 \<Rightarrow> pad_and_set_block_count data4)"

section \<open>Running the model on examples\<close>

text \<open>
  An instance of the builtins for ASCII text, used to run the model on examples: it
  agrees with Python on unsigned digit strings (with an optional \<^verbatim>\<open>0x\<close> prefix in
  base 16), on ASCII letters and on ASCII white space.
\<close>

definition digit_of :: "nat \<Rightarrow> nat \<Rightarrow> nat option" where
  "digit_of base c =
     (let d = (if 0x30 \<le> c \<and> c \<le> 0x39 then Some (c - 0x30)
               else if 0x41 \<le> c \<and> c \<le> 0x46 then Some (c - 0x41 + 10)
               else if 0x61 \<le> c \<and> c \<le> 0x66 then Some (c - 0x61 + 10)
               else None)
      in case d of Some n \<Rightarrow> (if n < base then Some n else None) | None \<Rightarrow> None)"

fun digits_loop :: "nat \<Rightarrow> ustring \<Rightarrow> nat \<Rightarrow> nat option" where
  "digits_loop base [] acc = Some acc"
| "digits_loop base (c # cs) acc =
     (case digit_of base c of
        Some d \<Rightarrow> digits_loop base cs (acc * base + d)
      | None \<Rightarrow> None)"

definition ascii_int :: "nat \<Rightarrow> ustring \<Rightarrow> int option" where
  "ascii_int base s =
     (let body = (if base = 16 \<and> (take 2 s = ustr ''0x'' \<or> take 2 s = ustr ''0X'')
                  then drop 2 s else s)
      in if body = [] then None
         else map_option int (digits_loop base body 0))"

definition ascii_builtins :: builtins where
  "ascii_builtins =
     \<lparr> py_int = ascii_int,
       py_lower = map (\<lambda>c. if 0x41 \<le> c \<and> c \<le> 0x5A then c + 0x20 else c),
       py_isspace = (\<lambda>c. c = 0x20 \<or> (0x09 \<le> c \<and> c \<le> 0x0D)) \<rparr>"

section \<open>Notions used to state the properties\<close>

text \<open>
  The remap table of the data model maps a character to a single byte code:
  \<open>codes_in_range\<close> says so of every character of the normalised name that the table
  maps. (For a code outside \<open>0..255\<close> the bytearray refuses the append.)
\<close>

definition codes_in_range :: "(ustring \<rightharpoonup> int) \<Rightarrow> ustring \<Rightarrow> bool" where
  "codes_in_range remap name =
     list_all (\<lambda>ch. case remap [ch] of Some v \<Rightarrow> 0 \<le> v \<and> v < 256 | None \<Rightarrow> True)
       (normalizeName name)"

text \<open>
  The bytes a name contributes to the table, and the buffer as the table builder's
  description gives it just before string \<open>i\<close> is appended: the two-byte marker, then
  every earlier encoded string with its \<open>0x00\<close> terminator.
\<close>

definition encoded :: "(ustring \<rightharpoonup> int) \<Rightarrow> ustring \<Rightarrow> bytes" where
  "encoded remap name = (case encodeName name remap True of Inr enc \<Rightarrow> enc | Inl e \<Rightarrow> [])"

definition buffer_before :: "ustring list \<Rightarrow> (ustring \<rightharpoonup> int) \<Rightarrow> nat \<Rightarrow> bytes" where
  "buffer_before names remap i =
     NAME_MARKER @ concat (map (\<lambda>name. encoded remap name @ [0x00]) (take i names))"

section \<open>Properties of the encoder\<close>

lemma and_255_nat: "(x::nat) AND 255 = x mod 256"
  using take_bit_eq_mask [of 8 x] by (simp add: mask_eq_exp_minus_1 take_bit_eq_mod)

lemmas enc_eval = encodeName_def normalizeName_def replacements_def missing_bump_def

lemma encode_loop_lenient:
  "list_all (\<lambda>ch. case remap [ch] of Some v \<Rightarrow> 0 \<le> v \<and> v < 256 | None \<Rightarrow> True) xs \<Longrightarrow>
   encode_loop xs remap False out missing =
     Inr (out @ map (\<lambda>ch. case remap [ch] of Some v \<Rightarrow> nat v
                          | None \<Rightarrow> if 0x20 \<le> ch \<and> ch \<le> 0x7E then ch else 0x20) xs, missing)"
  by (induction xs arbitrary: out) (auto split: option.splits)

lemma encode_loop_strict:
  "list_all (\<lambda>ch. case remap [ch] of Some v \<Rightarrow> 0 \<le> v \<and> v < 256 | None \<Rightarrow> True) xs \<Longrightarrow>
   encode_loop xs remap True out missing =
     Inr (out @ map (\<lambda>ch. nat (the (remap [ch]))) (filter (\<lambda>ch. remap [ch] \<noteq> None) xs),
          fold (\<lambda>ch m. missing_bump m ch) (filter (\<lambda>ch. remap [ch] = None) xs) missing)"
  by (induction xs arbitrary: out missing) (auto split: option.splits)

lemma distinct_missing_bump:
  "distinct (map fst m) \<Longrightarrow> distinct (map fst (missing_bump m ch))"
  by (simp add: missing_bump_def distinct_update)

lemma distinct_fold_bump:
  "distinct (map fst m) \<Longrightarrow> distinct (map fst (fold (\<lambda>ch m. missing_bump m ch) cs m))"
  by (induction cs arbitrary: m) (simp_all add: distinct_missing_bump)

lemma map_of_missing_bump:
  "map_of (missing_bump m ch) =
     (map_of m)(ch \<mapsto> (case map_of m ch of Some n \<Rightarrow> n | None \<Rightarrow> 0) + 1)"
  by (simp add: missing_bump_def update_conv')

lemma map_of_fold_bump:
  "map_of (fold (\<lambda>ch m. missing_bump m ch) cs m) c =
     (case map_of m c of
        None \<Rightarrow> if count_list cs c = 0 then None else Some (count_list cs c)
      | Some n \<Rightarrow> Some (n + count_list cs c))"
  by (induction cs arbitrary: m) (auto simp: map_of_missing_bump split: option.splits)

lemma set_fold_bump_empty:
  "set (fold (\<lambda>ch m. missing_bump m ch) cs []) = (\<lambda>c. (c, count_list cs c)) ` set cs"
proof -
  let ?m = "fold (\<lambda>ch m. missing_bump m ch) cs []"
  have d: "distinct (map fst ?m)" by (rule distinct_fold_bump) simp
  have "(c, n) \<in> set ?m \<longleftrightarrow> (c \<in> set cs \<and> n = count_list cs c)" for c n
    using map_of_eq_Some_iff [OF d, of c n] map_of_fold_bump [of cs "[]" c]
    by (auto simp: count_list_0_iff split: if_splits)
  then show ?thesis by auto
qed

lemma count_list_filter:
  "P c \<Longrightarrow> count_list (filter P xs) c = count_list xs c"
  by (induction xs) auto

subsection \<open>Non-strict mode\<close>

text \<open>
  Claim C7 as stated fails: in non-strict mode a character that the remap table does not
  map and whose ordinal is printable ASCII is emitted as its own ordinal. Here the
  table is empty and the letter \<open>A\<close> (0x41) comes out as 0x41, not as the placeholder
  0x20.
\<close>

theorem encodeName_lenient_counterexample:
  "(Map.empty :: ustring \<rightharpoonup> int) [0x41] = None \<and> encodeName [0x41] Map.empty False = Inr [0x41]"
  by (simp add: enc_eval)

text \<open>
  Claim C7, amended: in non-strict mode every character of the normalised name that the
  remap table maps is emitted as its code; an unmapped character is emitted as its own
  ordinal when that lies in the printable ASCII range \<open>0x20..0x7E\<close>, and as the
  placeholder 0x20 (space) otherwise. So the ordinal of an unmapped character appears in
  the output exactly when it is printable ASCII.
\<close>

theorem encodeName_lenient_substitution:
  assumes "codes_in_range remap name"
  shows "encodeName name remap False =
           Inr (map (\<lambda>ch. case remap [ch] of
                            Some v \<Rightarrow> nat v
                          | None \<Rightarrow> if 0x20 \<le> ch \<and> ch \<le> 0x7E then ch else 0x20)
                  (normalizeName name))"
  using assms encode_loop_lenient [of remap "normalizeName name" "[]" "[]"]
  by (simp add: encodeName_def codes_in_range_def Let_def)

theorem encodeName_lenient_substitution_witness:
  "encodeName [0x41, 0x2019, 0xE9, 0x42] [[0x42] \<mapsto> 0x42] False = Inr [0x41, 0x27, 0x20, 0x42]"
proof -
  have h: "codes_in_range [[0x42] \<mapsto> 0x42] [0x41, 0x2019, 0xE9, 0x42]"
    by (simp add: codes_in_range_def normalizeName_def replacements_def)
  show ?thesis
    using encodeName_lenient_substitution [OF h] by (simp add: normalizeName_def replacements_def)
qed

subsection \<open>Strict mode\<close>

text \<open>
  Claim C8: in strict mode, when the normalised name holds at least one character that
  the remap table does not map, \<^verbatim>\<open>encodeName\<close> fails after the whole name has been
  scanned, and the error lists every distinct unmapped character exactly once, each with
  the number of its occurrences in the whole normalised name (not only the first one).
  The remap table maps to byte codes, as the data model has it.
\<close>

theorem encodeName_strict_reports_every_unmapped:
  assumes "codes_in_range remap name"
    and "filter (\<lambda>ch. remap [ch] = None) (normalizeName name) \<noteq> []"
  shows "\<exists>items. encodeName name remap True =
            Inl (UnmappedCharacters (normalizeName name) items)
         \<and> distinct (map fst items)
         \<and> set items = (\<lambda>ch. (ch, count_list (normalizeName name) ch))
                          ` {ch \<in> set (normalizeName name). remap [ch] = None}"
proof -
  let ?nm = "normalizeName name"
  let ?un = "filter (\<lambda>ch. remap [ch] = None) ?nm"
  let ?m = "fold (\<lambda>ch m. missing_bump m ch) ?un []"
  have loop: "encode_loop ?nm remap True [] [] =
     Inr (map (\<lambda>ch. nat (the (remap [ch]))) (filter (\<lambda>ch. remap [ch] \<noteq> None) ?nm), ?m)"
    using assms(1) encode_loop_strict [of remap ?nm "[]" "[]"] by (simp add: codes_in_range_def)
  have s: "set ?m = (\<lambda>c. (c, count_list ?un c)) ` set ?un" by (rule set_fold_bump_empty)
  have ne: "?m \<noteq> []" using assms(2) s by (cases ?un) auto
  have d: "distinct (map fst ?m)" by (rule distinct_fold_bump) simp
  have enc: "encodeName name remap True = Inl (UnmappedCharacters ?nm (sort ?m))"
    using loop ne by (simp add: encodeName_def Let_def)
  have d': "distinct (map fst (sort ?m))"
    using d by (simp add: distinct_map)
  have "set (sort ?m) = (\<lambda>ch. (ch, count_list ?nm ch)) ` {ch \<in> set ?nm. remap [ch] = None}"
    using s by (auto simp: count_list_filter)
  with enc d' show ?thesis by blast
qed

theorem encodeName_strict_reports_every_unmapped_witness:
  "encodeName [0x41, 0x42, 0x2019, 0x42, 0x43, 0x41] [[0x41] \<mapsto> 0x41] True
     = Inl (UnmappedCharacters [0x41, 0x42, 0x27, 0x42, 0x43, 0x41] [(0x27, 1), (0x42, 2), (0x43, 1)])"
proof -
  let ?name = "[0x41, 0x42, 0x2019, 0x42, 0x43, 0x41::nat]"
  let ?remap = "[[0x41::nat] \<mapsto> 0x41::int]"
  have h1: "codes_in_range ?remap ?name"
    by (simp add: codes_in_range_def normalizeName_def replacements_def)
  have h2: "filter (\<lambda>ch. ?remap [ch] = None) (normalizeName ?name) \<noteq> []"
    by (simp add: normalizeName_def replacements_def)
  show ?thesis
    using encodeName_strict_reports_every_unmapped [OF h1 h2] by (simp add: enc_eval)
qed

section \<open>Properties of the table builder\<close>

lemma build_loop_result:
  assumes "\<forall>n\<in>set names. \<exists>enc. encodeName n remap True = Inr enc"
    and "i + length names \<le> length offs"
  shows "\<exists>offs'. build_loop i names remap buf offs =
            Inr (buf @ concat (map (\<lambda>n. encoded remap n @ [0x00]) names), offs')
          \<and> length offs' = length offs
          \<and> (\<forall>j < length offs. offs' ! j =
                (if 0 < j \<and> i \<le> j \<and> j < i + length names
                 then length buf + length (concat (map (\<lambda>n. encoded remap n @ [0x00])
                                                    (take (j - i) names)))
                 else offs ! j))"
  using assms
proof (induction names arbitrary: i buf offs)
  case Nil
  then show ?case by simp
next
  case (Cons name rest)
  obtain enc where enc: "encodeName name remap True = Inr enc"
    using Cons.prems(1) by auto
  define offs1 where "offs1 = (if 0 < i then offs[i := length buf] else offs)"
  have len1: "length offs1 = length offs" by (simp add: offs1_def)
  have il: "i < length offs" using Cons.prems(2) by simp
  have "\<forall>n\<in>set rest. \<exists>enc. encodeName n remap True = Inr enc"
    using Cons.prems(1) by simp
  moreover have "(i + 1) + length rest \<le> length offs1"
    using Cons.prems(2) len1 by simp
  ultimately obtain offs' where
    r: "build_loop (i + 1) rest remap (buf @ enc @ [0x00]) offs1 =
          Inr ((buf @ enc @ [0x00]) @ concat (map (\<lambda>n. encoded remap n @ [0x00]) rest), offs')"
    and l: "length offs' = length offs1"
    and v: "\<forall>j < length offs1. offs' ! j =
                (if 0 < j \<and> i + 1 \<le> j \<and> j < (i + 1) + length rest
                 then length (buf @ enc @ [0x00]) + length (concat (map (\<lambda>n. encoded remap n @ [0x00])
                                                    (take (j - (i + 1)) rest)))
                 else offs1 ! j)"
    using Cons.IH [of "i + 1" offs1 "buf @ enc @ [0x00]"] by blast
  have e: "encoded remap name = enc" by (simp add: encoded_def enc)
  have step: "build_loop i (name # rest) remap buf offs =
          Inr (buf @ concat (map (\<lambda>n. encoded remap n @ [0x00]) (name # rest)), offs')"
    using r il enc e by (simp add: offs1_def Let_def)
  have vals: "offs' ! j =
                (if 0 < j \<and> i \<le> j \<and> j < i + length (name # rest)
                 then length buf + length (concat (map (\<lambda>n. encoded remap n @ [0x00])
                                                    (take (j - i) (name # rest))))
                 else offs ! j)" if j: "j < length offs" for j
  proof (cases "i + 1 \<le> j \<and> j < (i + 1) + length rest")
    case True
    then have "j - i = Suc (j - (i + 1))" by arith
    then show ?thesis using v j len1 True e by simp
  next
    case False
    then have o: "offs' ! j = offs1 ! j" using v j len1 by auto
    show ?thesis
    proof (cases "j = i")
      case True
      then show ?thesis using o il by (simp add: offs1_def)
    next
      case False
      then show ?thesis using o \<open>\<not> (i + 1 \<le> j \<and> j < (i + 1) + length rest)\<close>
        by (auto simp: offs1_def)
    qed
  qed
  show ?case using step l len1 vals by simp
qed

lemma build_loop_overflow:
  assumes "\<forall>n\<in>set names. \<exists>enc. encodeName n remap True = Inr enc"
    and "0 < length offs" and "length offs < i + length names" and "i \<le> length offs"
  shows "build_loop i names remap buf offs = Inl IndexError"
  using assms
proof (induction names arbitrary: i buf offs)
  case Nil
  then show ?case by simp
next
  case (Cons name rest)
  obtain enc where enc: "encodeName name remap True = Inr enc"
    using Cons.prems(1) by auto
  show ?case
  proof (cases "0 < i \<and> \<not> i < length offs")
    case True
    then show ?thesis by (simp add: Let_def)
  next
    case False
    define offs1 where "offs1 = (if 0 < i then offs[i := length buf] else offs)"
    have l1: "length offs1 = length offs" by (simp add: offs1_def)
    have p1: "\<forall>n\<in>set rest. \<exists>enc. encodeName n remap True = Inr enc"
      using Cons.prems(1) by simp
    have p2: "0 < length offs1" using Cons.prems(2) l1 by simp
    have p3: "length offs1 < (i + 1) + length rest" using Cons.prems(3) l1 by simp
    have p4: "i + 1 \<le> length offs1" using Cons.prems(2,4) False l1
      by (cases offs) auto
    have "build_loop (i + 1) rest remap (buf @ enc @ [0x00]) offs1 = Inl IndexError"
      by (rule Cons.IH [OF p1 p2 p3 p4])
    then show ?thesis using False enc by (simp add: offs1_def Let_def)
  qed
qed

lemma pad_multiple: "0 < b \<Longrightarrow> (n + nat ((- int n) mod int b)) mod b = 0"
proof -
  assume b: "0 < b"
  have "(int n + (- int n) mod int b) mod int b = 0"
    by (simp add: mod_add_right_eq)
  moreover have "int (n + nat ((- int n) mod int b)) = int n + (- int n) mod int b"
    using b by simp
  ultimately have "int ((n + nat ((- int n) mod int b)) mod b) = 0"
    by (metis zmod_int)
  then show ?thesis by simp
qed

lemma build_padded:
  "buildNameBlobAndOffsets names remap = Inr (blob, offsets) \<Longrightarrow> length blob mod BLOCK_SIZE = 0"
proof -
  assume a: "buildNameBlobAndOffsets names remap = Inr (blob, offsets)"
  obtain buf offs where
    bl: "build_loop 0 names remap NAME_MARKER (replicate EXPECTED_CARD_COUNT 0) = Inr (buf, offs)"
    using a by (cases "build_loop 0 names remap NAME_MARKER (replicate EXPECTED_CARD_COUNT 0)")
      (auto simp: buildNameBlobAndOffsets_def)
  have "length blob = length buf + nat ((- int (length buf)) mod int BLOCK_SIZE)"
    using a bl by (auto simp: buildNameBlobAndOffsets_def Let_def split: if_splits)
  then show ?thesis using pad_multiple [of BLOCK_SIZE "length buf"] by (simp add: BLOCK_SIZE_def)
qed

text \<open>
  Claim C9: for every list of names that all encode, the buffer the table builder
  returns (marker, encoded terminated strings, fill bytes) is not empty and its length is
  a multiple of the block size. The builder returns no buffer only when it is given
  more names than the offsets list has entries, where it raises IndexError.
\<close>

theorem build_blob_length_multiple_of_block:
  assumes "\<forall>n\<in>set names. \<exists>enc. encodeName n remap True = Inr enc"
  shows "case buildNameBlobAndOffsets names remap of
           Inr (blob, offsets) \<Rightarrow> 0 < length blob \<and> length blob mod BLOCK_SIZE = 0
         | Inl e \<Rightarrow> e = IndexError \<and> EXPECTED_CARD_COUNT < length names"
proof (cases "length names \<le> EXPECTED_CARD_COUNT")
  case True
  then obtain offs' where
    "build_loop 0 names remap NAME_MARKER (replicate EXPECTED_CARD_COUNT 0) =
       Inr (NAME_MARKER @ concat (map (\<lambda>n. encoded remap n @ [0x00]) names), offs')"
    using build_loop_result [OF assms, of 0 "replicate EXPECTED_CARD_COUNT 0" NAME_MARKER] by auto
  then obtain blob where r: "buildNameBlobAndOffsets names remap = Inr (blob, offs')"
     and n: "blob \<noteq> []"
    by (simp add: buildNameBlobAndOffsets_def Let_def NAME_MARKER_def)
  then show ?thesis using build_padded [OF r] by simp
next
  case False
  then have "build_loop 0 names remap NAME_MARKER (replicate EXPECTED_CARD_COUNT 0) = Inl IndexError"
    using build_loop_overflow [OF assms, of "replicate EXPECTED_CARD_COUNT 0" 0 NAME_MARKER]
    by (simp add: EXPECTED_CARD_COUNT_def)
  then show ?thesis using False by (simp add: buildNameBlobAndOffsets_def)
qed

theorem build_blob_length_multiple_of_block_witness:
  "map_sum id (\<lambda>r. length (fst r))
     (buildNameBlobAndOffsets [[0x41], [0x42, 0x42], [0x43, 0x43, 0x43]]
        [[0x41] \<mapsto> 0x41, [0x42] \<mapsto> 0x42, [0x43] \<mapsto> 0x43]) = Inr 8192
   \<and> 8192 mod BLOCK_SIZE = 0"
proof -
  let ?names = "[[0x41], [0x42, 0x42], [0x43, 0x43, 0x43::nat]]"
  let ?remap = "[[0x41] \<mapsto> 0x41, [0x42] \<mapsto> 0x42, [0x43::nat] \<mapsto> 0x43::int]"
  have h1: "\<forall>n\<in>set ?names. \<exists>enc. encodeName n ?remap True = Inr enc"
    by (simp add: enc_eval)
  have e: "map_sum id (\<lambda>r. length (fst r)) (buildNameBlobAndOffsets ?names ?remap) = Inr 8192"
    by (simp add: buildNameBlobAndOffsets_def enc_eval NAME_MARKER_def EXPECTED_CARD_COUNT_def BLOCK_SIZE_def Let_def)
  show ?thesis using build_blob_length_multiple_of_block [OF h1] e by (simp add: BLOCK_SIZE_def)
qed

text \<open>
  Claim C1 as stated fails: the offsets list is preallocated with
  \<^verbatim>\<open>EXPECTED_CARD_COUNT\<close> entries whatever the number of names. For one name the
  builder returns 722 offsets, not one.
\<close>

theorem build_offsets_single_name_counterexample:
  "map_sum id (\<lambda>r. length (snd r)) (buildNameBlobAndOffsets [[0x41]] [[0x41] \<mapsto> 0x41]) = Inr 722"
  by (simp add: buildNameBlobAndOffsets_def enc_eval NAME_MARKER_def EXPECTED_CARD_COUNT_def BLOCK_SIZE_def Let_def)

text \<open>
  Claim C1, amended: for every list of at most \<^verbatim>\<open>EXPECTED_CARD_COUNT\<close> names that
  all encode under the remap table, the builder returns an offsets list of exactly
  \<^verbatim>\<open>EXPECTED_CARD_COUNT\<close> = 722 entries (so exactly N entries for the N = 722 names
  the pipeline passes); entry 0 is 0; for every \<open>0 < i < N\<close> entry \<open>i\<close> is the length
  of the buffer (marker plus all earlier encoded strings with their terminators) just
  before string \<open>i\<close> is appended; the entries from N on are 0.
\<close>

theorem build_offsets_fixed_count:
  assumes "\<forall>n\<in>set names. \<exists>enc. encodeName n remap True = Inr enc"
    and "length names \<le> EXPECTED_CARD_COUNT"
  shows "\<exists>blob offsets. buildNameBlobAndOffsets names remap = Inr (blob, offsets)
           \<and> length offsets = EXPECTED_CARD_COUNT
           \<and> offsets ! 0 = 0
           \<and> (\<forall>i. 0 < i \<and> i < length names \<longrightarrow> offsets ! i = length (buffer_before names remap i))
           \<and> (\<forall>i. length names \<le> i \<and> i < EXPECTED_CARD_COUNT \<longrightarrow> offsets ! i = 0)"
proof -
  obtain offs' where
    r: "build_loop 0 names remap NAME_MARKER (replicate EXPECTED_CARD_COUNT 0) =
       Inr (NAME_MARKER @ concat (map (\<lambda>n. encoded remap n @ [0x00]) names), offs')"
    and l: "length offs' = EXPECTED_CARD_COUNT"
    and v: "\<forall>j < EXPECTED_CARD_COUNT. offs' ! j =
                (if 0 < j \<and> j < length names
                 then length NAME_MARKER + length (concat (map (\<lambda>n. encoded remap n @ [0x00])
                                                    (take j names)))
                 else 0)"
    using build_loop_result [OF assms(1), of 0 "replicate EXPECTED_CARD_COUNT 0" NAME_MARKER] assms(2)
    by auto
  obtain blob where b: "buildNameBlobAndOffsets names remap = Inr (blob, offs')"
    using r by (simp add: buildNameBlobAndOffsets_def Let_def)
  have "offs' ! 0 = 0" using v by (simp add: EXPECTED_CARD_COUNT_def)
  moreover have "offs' ! i = length (buffer_before names remap i)" if "0 < i" "i < length names" for i
    using v that assms(2) by (simp add: buffer_before_def)
  moreover have "offs' ! i = 0" if "length names \<le> i" "i < EXPECTED_CARD_COUNT" for i
    using v that by simp
  ultimately show ?thesis using b l by blast
qed

theorem build_offsets_fixed_count_witness:
  "\<exists>blob offsets.
      buildNameBlobAndOffsets [[0x41], [0x42, 0x42], [0x43, 0x43, 0x43]]
        [[0x41] \<mapsto> 0x41, [0x42] \<mapsto> 0x42, [0x43] \<mapsto> 0x43] = Inr (blob, offsets)
      \<and> length offsets = 722 \<and> offsets ! 0 = 0 \<and> offsets ! 1 = 4 \<and> offsets ! 2 = 7
      \<and> offsets ! 3 = 0"
proof -
  let ?names = "[[0x41], [0x42, 0x42], [0x43, 0x43, 0x43::nat]]"
  let ?remap = "[[0x41] \<mapsto> 0x41, [0x42] \<mapsto> 0x42, [0x43::nat] \<mapsto> 0x43::int]"
  have h1: "\<forall>n\<in>set ?names. \<exists>enc. encodeName n ?remap True = Inr enc"
    by (simp add: enc_eval)
  have h2: "length ?names \<le> EXPECTED_CARD_COUNT" by (simp add: EXPECTED_CARD_COUNT_def)
  have b1: "length (buffer_before ?names ?remap 1) = 4"
    by (simp add: buffer_before_def encoded_def enc_eval NAME_MARKER_def)
  have b2: "length (buffer_before ?names ?remap 2) = 7"
    by (simp add: buffer_before_def encoded_def enc_eval NAME_MARKER_def numeral_2_eq_2)
  from build_offsets_fixed_count [OF h1 h2] obtain blob offsets where
    r: "buildNameBlobAndOffsets ?names ?remap = Inr (blob, offsets)"
    and l: "length offsets = EXPECTED_CARD_COUNT" and z: "offsets ! 0 = 0"
    and v: "\<forall>i. 0 < i \<and> i < length ?names \<longrightarrow> offsets ! i = length (buffer_before ?names ?remap i)"
    and t: "\<forall>i. length ?names \<le> i \<and> i < EXPECTED_CARD_COUNT \<longrightarrow> offsets ! i = 0"
    by blast
  have "offsets ! 1 = 4" using v b1 by simp
  moreover have "offsets ! 2 = 7" using v b2 by simp
  moreover have "offsets ! 3 = 0" using t by (simp add: EXPECTED_CARD_COUNT_def)
  ultimately show ?thesis using r l z by (simp add: EXPECTED_CARD_COUNT_def)
qed

section \<open>Properties of the generic patch engine\<close>

lemmas patches_eval =
  patches_main_def patches_main_apply_def apply_patches_def find_language_section_def
  parse_text_def strip_def split_def ascii_builtins_def ascii_int_def digit_of_def
  bytearray_setslice_def slice_index_def ustr_def Let_def

subsection \<open>Language lookup\<close>

lemma find_language_section_exact:
  "map_of manifest lang_key = Some sect \<Longrightarrow> find_language_section B manifest lang_key = Inr sect"
  by (simp add: find_language_section_def)

lemma find_language_section_fallback:
  assumes "map_of manifest lang_key = None"
    and "find (\<lambda>k. py_lower B k = py_lower B lang_key) (map fst manifest) = Some k"
  shows "\<exists>sect. (k, sect) \<in> set manifest \<and> py_lower B k = py_lower B lang_key
            \<and> find_language_section B manifest lang_key = Inr sect"
proof -
  have k: "k \<in> set (map fst manifest)" and l: "py_lower B k = py_lower B lang_key"
    using assms(2) by (auto simp: find_Some_iff)
  then obtain sect where s: "map_of manifest k = Some sect"
    by (cases "map_of manifest k") (auto simp: map_of_eq_None_iff)
  then have "(k, sect) \<in> set manifest" by (rule map_of_SomeD)
  moreover have "find_language_section B manifest lang_key = Inr sect"
    using assms s by (simp add: find_language_section_def)
  ultimately show ?thesis using l by blast
qed

text \<open>
  Claim C10: the lookup of a language section returns the section of the requested key
  when the manifest has that exact key; failing that, it returns the section of a key of
  the manifest that equals the requested key ignoring case (equal after
  \<^verbatim>\<open>lower()\<close>), when there is one; it raises the missing-language KeyError exactly
  when no key of the manifest matches even ignoring case.
\<close>

theorem find_language_section_lookup:
  "(\<forall>sect. map_of manifest lang_key = Some sect \<longrightarrow>
       find_language_section B manifest lang_key = Inr sect)
   \<and> (map_of manifest lang_key = None
        \<and> (\<exists>k \<in> set (map fst manifest). py_lower B k = py_lower B lang_key) \<longrightarrow>
       (\<exists>k sect. (k, sect) \<in> set manifest \<and> py_lower B k = py_lower B lang_key
           \<and> find_language_section B manifest lang_key = Inr sect))
   \<and> ((\<exists>e. find_language_section B manifest lang_key = Inl e) \<longleftrightarrow>
        (\<forall>k \<in> set (map fst manifest). py_lower B k \<noteq> py_lower B lang_key))
   \<and> (\<forall>e. find_language_section B manifest lang_key = Inl e \<longrightarrow> e = KeyError lang_key)"
proof (cases "map_of manifest lang_key")
  case (Some sect)
  then have "lang_key \<in> set (map fst manifest)"
    by (metis map_of_eq_None_iff option.distinct(1) set_map)
  then show ?thesis using Some by (auto simp: find_language_section_def)
next
  case None
  show ?thesis
  proof (cases "find (\<lambda>k. py_lower B k = py_lower B lang_key) (map fst manifest)")
    case n: None
    then have "\<forall>k \<in> set (map fst manifest). py_lower B k \<noteq> py_lower B lang_key"
      by (simp add: find_None_iff)
    moreover have "find_language_section B manifest lang_key = Inl (KeyError lang_key)"
      using None n by (simp add: find_language_section_def)
    ultimately show ?thesis using None by auto
  next
    case (Some k)
    from find_language_section_fallback [OF None Some] obtain sect where
      s: "(k, sect) \<in> set manifest" "py_lower B k = py_lower B lang_key"
         "find_language_section B manifest lang_key = Inr sect"
      by blast
    then have "k \<in> set (map fst manifest)" by force
    then show ?thesis using s None by auto
  qed
qed

theorem find_language_section_lookup_witness:
  "find_language_section ascii_builtins
     [(ustr ''version'', JInt 1), (ustr ''English'', JArr [JNull])] (ustr ''english'')
   = Inr (JArr [JNull])"
  using find_language_section_lookup
    [of "[(ustr ''version'', JInt 1), (ustr ''English'', JArr [JNull])]" "ustr ''english''"
        ascii_builtins]
  by (simp add: find_language_section_def ascii_builtins_def ustr_def)

subsection \<open>Dry runs and bounds\<close>

lemma apply_loop_dry_run_keeps_buffer:
  "dry_run \<Longrightarrow>
   apply_loop B entries rom base incl only_name dry_run count out = (r, rom', out') \<Longrightarrow>
     rom' = rom \<and> (\<exists>news. out' = out @ news \<and> (\<forall>x \<in> set news. \<exists>n l s a. x = WouldWrite n l s a))"
proof (induction B entries rom base incl only_name dry_run count out
       arbitrary: r rom' out' rule: apply_loop.induct)
  case (1 B rom base incl only_name dry_run count out)
  then show ?case by simp
next
  case (2 B entry rest rom base incl only_name dry_run count out)
  show ?case
    using "2.prems" "2.IH"
    apply (simp add: Let_def split: option.splits sum.splits if_splits)
    apply (fastforce)+
    done
qed (simp_all)

lemma apply_patches_dry_run_keeps_buffer:
  "apply_patches B rom base patches incl only_name True = (r, rom', out) \<Longrightarrow>
     rom' = rom \<and> (\<forall>x \<in> set out. \<exists>n l s a. x = WouldWrite n l s a)"
  using apply_loop_dry_run_keeps_buffer [of True B _ rom base incl only_name 0 "[]" r rom' out]
  by (auto simp: apply_patches_def split: sum.splits)

lemma setslice_in_range_keeps_length:
  assumes "0 \<le> start" and "start + int (length data) \<le> int (length rom)"
  shows "length (bytearray_setslice rom start (start + int (length data)) data) = length rom"
  using assms by (auto simp: bytearray_setslice_def slice_index_def Let_def min_def max_def)

text \<open>
  A patch that ends past the image is refused before anything is written, and for
  addresses that are not negative the loop never changes the length of the image.
\<close>

lemma apply_loop_out_of_range:
  assumes "only_name = None \<or> only_name = Some []
             \<or> map_of entry (ustr ''name'') = Some (JStr (the only_name))"
    and "include_inactive \<or> (case map_of entry (ustr ''active'') of
                                 Some a \<Rightarrow> truthy a | None \<Rightarrow> True)"
    and "map_of entry (ustr ''addr'') = Some a" and "parse_hex_or_int B a = Inr addr"
    and "map_of entry (ustr ''value'') = Some v" and "parse_value_to_bytes B v = Inr data"
    and "int (length rom_bytes) < base_offset + addr + int (length data)"
  shows "apply_loop B (JObj entry # rest) rom_bytes base_offset include_inactive only_name
           dry_run count out
         = (Inl (PatchExceedsFile addr (length data) (length rom_bytes)), rom_bytes, out)"
  using assms by (auto simp: Let_def split: option.splits)

lemma apply_loop_step:
  assumes "0 \<le> base_offset"
    and "\<And>entry a n. e = JObj entry \<Longrightarrow> map_of entry (ustr ''addr'') = Some a \<Longrightarrow>
           parse_hex_or_int B a = Inr n \<Longrightarrow> 0 \<le> n"
  shows "(\<exists>err. apply_loop B (e # rest) rom_bytes base_offset include_inactive only_name dry_run
                  count out = (Inl err, rom_bytes, out))
       \<or> (\<exists>rom1 count1 out1. length rom1 = length rom_bytes
             \<and> apply_loop B (e # rest) rom_bytes base_offset include_inactive only_name dry_run
                  count out
               = apply_loop B rest rom1 base_offset include_inactive only_name dry_run
                  count1 out1)"
proof (cases e)
  case (JObj entry)
  let ?lhs = "apply_loop B (JObj entry # rest) rom_bytes base_offset include_inactive only_name
                dry_run count out"
  let ?name = "case map_of entry (ustr ''name'') of
                 Some n \<Rightarrow> n | None \<Rightarrow> JStr (ustr ''(unnamed)'')"
  let ?active = "case map_of entry (ustr ''active'') of Some a \<Rightarrow> a | None \<Rightarrow> JBool True"
  let ?skip = "(case only_name of None \<Rightarrow> False | Some n \<Rightarrow> n \<noteq> [] \<and> ?name \<noteq> JStr n)
               \<or> (\<not> truthy ?active \<and> \<not> include_inactive)"
  have goal: "(\<exists>err. ?lhs = (Inl err, rom_bytes, out))
       \<or> (\<exists>rom1 count1 out1. length rom1 = length rom_bytes
             \<and> ?lhs = apply_loop B rest rom1 base_offset include_inactive only_name dry_run
                  count1 out1)"
  proof (cases ?skip)
    case True
    then have "?lhs = apply_loop B rest rom_bytes base_offset include_inactive only_name
                        dry_run count out"
      by (auto simp: Let_def)
    then show ?thesis by blast
  next
    case noskip: False
    show ?thesis
    proof (cases "map_of entry (ustr ''addr'')")
      case None
      then have "?lhs = (Inl (KeyError (ustr ''addr'')), rom_bytes, out)"
        using noskip by (auto simp: Let_def)
      then show ?thesis by blast
    next
      case a: (Some a)
      show ?thesis
      proof (cases "parse_hex_or_int B a")
        case (Inl err)
        then have "?lhs = (Inl err, rom_bytes, out)"
          using noskip a by (auto simp: Let_def)
        then show ?thesis by blast
      next
        case addr: (Inr addr)
        have nonneg: "0 \<le> addr" using assms(2) [OF JObj a addr] .
        show ?thesis
        proof (cases "map_of entry (ustr ''value'')")
          case None
          then have "?lhs = (Inl (KeyError (ustr ''value'')), rom_bytes, out)"
            using noskip a addr by (auto simp: Let_def)
          then show ?thesis by blast
        next
          case v: (Some v)
          show ?thesis
          proof (cases "parse_value_to_bytes B v")
            case (Inl err)
            then have "?lhs = (Inl err, rom_bytes, out)"
              using noskip a addr v by (auto simp: Let_def)
            then show ?thesis by blast
          next
            case data: (Inr data)
            show ?thesis
            proof (cases "int (length rom_bytes) < base_offset + addr + int (length data)")
              case True
              then have "?lhs = (Inl (PatchExceedsFile addr (length data) (length rom_bytes)),
                                 rom_bytes, out)"
                using noskip a addr v data by (auto simp: Let_def)
              then show ?thesis by blast
            next
              case fits: False
              show ?thesis
              proof (cases dry_run)
                case True
                then have "?lhs = apply_loop B rest rom_bytes base_offset include_inactive
                             only_name dry_run (count + length data)
                             (out @ [WouldWrite ?name (length data) (base_offset + addr) addr])"
                  using noskip a addr v data fits by (auto simp: Let_def)
                then show ?thesis by blast
              next
                case False
                then have w: "?lhs = apply_loop B rest
                             (bytearray_setslice rom_bytes (base_offset + addr)
                                (base_offset + addr + int (length data)) data)
                             base_offset include_inactive only_name dry_run (count + length data)
                             (out @ [Patched ?name (length data) (base_offset + addr)])"
                  using noskip a addr v data fits by (auto simp: Let_def)
                have "length (bytearray_setslice rom_bytes (base_offset + addr)
                                (base_offset + addr + int (length data)) data) = length rom_bytes"
                  using assms(1) nonneg fits by (intro setslice_in_range_keeps_length) simp_all
                then show ?thesis using w by blast
              qed
            qed
          qed
        qed
      qed
    qed
  qed
  then show ?thesis unfolding JObj .
qed (simp; blast)+

lemma apply_loop_keeps_length:
  assumes "0 \<le> base_offset"
    and "\<forall>entry a n. JObj entry \<in> set entries \<longrightarrow> map_of entry (ustr ''addr'') = Some a \<longrightarrow>
           parse_hex_or_int B a = Inr n \<longrightarrow> 0 \<le> n"
    and "apply_loop B entries rom_bytes base_offset include_inactive only_name dry_run count out
           = (r, rom', out')"
  shows "length rom' = length rom_bytes"
  using assms(2,3)
proof (induction entries arbitrary: rom_bytes count out)
  case Nil
  then show ?case by simp
next
  case (Cons e rest)
  have here: "\<And>entry a n. e = JObj entry \<Longrightarrow> map_of entry (ustr ''addr'') = Some a \<Longrightarrow>
           parse_hex_or_int B a = Inr n \<Longrightarrow> 0 \<le> n"
    using Cons.prems(1) by auto
  have tl: "\<forall>entry a n. JObj entry \<in> set rest \<longrightarrow> map_of entry (ustr ''addr'') = Some a \<longrightarrow>
           parse_hex_or_int B a = Inr n \<longrightarrow> 0 \<le> n"
    using Cons.prems(1) by auto
  from apply_loop_step [where B=B and e=e and rest=rest and rom_bytes=rom_bytes
      and include_inactive=include_inactive and only_name=only_name and dry_run=dry_run
      and count=count and out=out, OF assms(1) here]
  show ?case
  proof
    assume "\<exists>err. apply_loop B (e # rest) rom_bytes base_offset include_inactive only_name
                     dry_run count out = (Inl err, rom_bytes, out)"
    then show ?thesis using Cons.prems(2) by auto
  next
    assume "\<exists>rom1 count1 out1. length rom1 = length rom_bytes
             \<and> apply_loop B (e # rest) rom_bytes base_offset include_inactive only_name dry_run
                  count out
               = apply_loop B rest rom1 base_offset include_inactive only_name dry_run
                  count1 out1"
    then obtain rom1 count1 out1 where
      l: "length rom1 = length rom_bytes"
      and "apply_loop B rest rom1 base_offset include_inactive only_name dry_run count1 out1
             = (r, rom', out')"
      using Cons.prems(2) by auto
    then show ?thesis using Cons.IH [OF tl] by simp
  qed
qed

text \<open>
  Claim C5 at a patch with a negative address: the bounds check of
  \<^verbatim>\<open>apply_patches\<close> only compares the end of the range with the length of the
  image. For the address \<open>-2\<close> and four bytes on an image of ten bytes the end is 2, the
  check passes, and the slice assignment \<^verbatim>\<open>rom_bytes[-2:2] = data\<close> inserts the four
  bytes: the image has fourteen bytes afterwards.
\<close>

theorem apply_patches_negative_address_grows_image:
  "apply_patches ascii_builtins (replicate 10 0) 0
     (JArr [JObj [(ustr ''name'', JStr (ustr ''t'')), (ustr ''addr'', JInt (- 2)),
                  (ustr ''value'', JArr [JInt 1, JInt 2, JInt 3, JInt 4])]])
     False None False
   = (Inr 4, [0, 0, 0, 0, 0, 0, 0, 0, 1, 2, 3, 4, 0, 0], [Patched (JStr (ustr ''t'')) 4 (- 2)])"
  by (simp add: patches_eval numeral_eq_Suc)

text \<open>
  Claim C6 at a run of \<^verbatim>\<open>main\<close> with \<^verbatim>\<open>--dry-run\<close>: \<^verbatim>\<open>main\<close> does not pass
  the flag to \<^verbatim>\<open>apply_patches\<close>, so the image buffer is written (bytes 1 and 2
  below) and the write is reported as done, not as planned; only the write-back to the
  file is left out.
\<close>

theorem patches_main_dry_run_mutates_buffer:
  "patches_main_apply ascii_builtins
     \<lparr> pa_language = ustr ''english'', pa_raw = True, pa_mcs = False, pa_offset = None,
       pa_only = None, pa_include_inactive = False, pa_dry_run = True \<rparr>
     [0, 0, 0, 0] 0
     (JArr [JObj [(ustr ''name'', JStr (ustr ''a'')), (ustr ''addr'', JStr (ustr ''0x1'')),
                  (ustr ''value'', JStr (ustr ''DE AD''))]])
   = (Inr 2, [0, 0xDE, 0xAD, 0], [Patched (JStr (ustr ''a'')) 2 1])
   \<and> patches_main ascii_builtins
     \<lparr> pa_language = ustr ''english'', pa_raw = True, pa_mcs = False, pa_offset = None,
       pa_only = None, pa_include_inactive = False, pa_dry_run = True \<rparr>
     [(ustr ''english'',
       JArr [JObj [(ustr ''name'', JStr (ustr ''a'')), (ustr ''addr'', JStr (ustr ''0x1'')),
                   (ustr ''value'', JStr (ustr ''DE AD''))]])]
     (Some [0, 0, 0, 0])
   = (Inr 0, Some [0, 0, 0, 0], [Patched (JStr (ustr ''a'')) 2 1], Some (DryRunComplete 2))"
  by (simp add: patches_eval)

section \<open>Properties of the command-line runs\<close>

text \<open>
  Claim C4: in a run of either pipeline (the relocation of rom\_names.py, the generic
  patching of rom\_patches.py) that ends with an exception, whatever the step that raised
  it, the file on disk is the file that was there at the start of the run: the write-back
  is the last step and is not reached.
\<close>

theorem failed_run_leaves_file_untouched:
  "(\<forall>e disk'. names_main B nargs cardsJson disk = (Inl e, disk') \<longrightarrow> disk' = disk)
   \<and> (\<forall>e disk' out closing.
         patches_main B pargs manifest disk = (Inl e, disk', out, closing) \<longrightarrow> disk' = disk)"
proof (intro conjI allI impI)
  fix e disk'
  assume "names_main B nargs cardsJson disk = (Inl e, disk')"
  then show "disk' = disk"
    by (auto simp: names_main_def split: sum.splits option.splits if_splits prod.splits)
next
  fix e disk' out closing
  assume "patches_main B pargs manifest disk = (Inl e, disk', out, closing)"
  then show "disk' = disk"
    by (auto simp: patches_main_def split: sum.splits option.splits if_splits prod.splits)
qed

theorem failed_run_leaves_file_untouched_witness:
  "names_main ascii_builtins
     \<lparr> na_language = ustr ''english'', na_raw = False, na_mcs = True, na_offset = None,
       na_dry_run = False, na_verbose = False \<rparr>
     \<lparr> cm_card_index_offset = Some (ustr ''0x4C08''), cm_card_name_offset = None,
       cm_card_lookup_address = Some (ustr ''0x2A7C''), cm_remap = None, cm_languages = [] \<rparr>
     (Some [1, 2, 3])
   = (Inl (KeyError (ustr ''card_name_offset'')), Some [1, 2, 3])
   \<and> patches_main ascii_builtins
     \<lparr> pa_language = ustr ''english'', pa_raw = True, pa_mcs = False, pa_offset = None,
       pa_only = None, pa_include_inactive = False, pa_dry_run = False \<rparr>
     [(ustr ''english'',
       JArr [JObj [(ustr ''name'', JStr (ustr ''a'')), (ustr ''addr'', JStr (ustr ''0x1'')),
                   (ustr ''value'', JStr (ustr ''DE AD''))],
             JObj [(ustr ''name'', JStr (ustr ''b'')), (ustr ''addr'', JStr (ustr ''0x3'')),
                   (ustr ''value'', JStr (ustr ''BE EF''))]])]
     (Some [0, 0, 0, 0])
   = (Inl (PatchExceedsFile 3 2 4), Some [0, 0, 0, 0], [Patched (JStr (ustr ''a'')) 2 1], None)"
proof -
  have n: "names_main ascii_builtins
     \<lparr> na_language = ustr ''english'', na_raw = False, na_mcs = True, na_offset = None,
       na_dry_run = False, na_verbose = False \<rparr>
     \<lparr> cm_card_index_offset = Some (ustr ''0x4C08''), cm_card_name_offset = None,
       cm_card_lookup_address = Some (ustr ''0x2A7C''), cm_remap = None, cm_languages = [] \<rparr>
     (Some [1, 2, 3])
   = (Inl (KeyError (ustr ''card_name_offset'')), Some [1, 2, 3])"
    by (simp add: names_main_def names_main_plan_def required_key_def parseHexInt_def
        parse_text_def strip_def ascii_builtins_def ascii_int_def digit_of_def ustr_def Let_def)
  have p: "patches_main ascii_builtins
     \<lparr> pa_language = ustr ''english'', pa_raw = True, pa_mcs = False, pa_offset = None,
       pa_only = None, pa_include_inactive = False, pa_dry_run = False \<rparr>
     [(ustr ''english'',
       JArr [JObj [(ustr ''name'', JStr (ustr ''a'')), (ustr ''addr'', JStr (ustr ''0x1'')),
                   (ustr ''value'', JStr (ustr ''DE AD''))],
             JObj [(ustr ''name'', JStr (ustr ''b'')), (ustr ''addr'', JStr (ustr ''0x3'')),
                   (ustr ''value'', JStr (ustr ''BE EF''))]])]
     (Some [0, 0, 0, 0])
   = (Inl (PatchExceedsFile 3 2 4), Some [0, 0, 0, 0], [Patched (JStr (ustr ''a'')) 2 1], None)"
    by (simp add: patches_eval)
  show ?thesis
    using failed_run_leaves_file_untouched n p by simp
qed

section \<open>Properties of the index and header patchers\<close>

lemma and_65535_nat: "(x::nat) AND 0xFFFF = x mod 65536"
  using take_bit_eq_mask [of 16 x] by (simp add: mask_eq_exp_minus_1 take_bit_eq_mod)

lemma drop_bit_8_nat: "drop_bit 8 (x::nat) = x div 256"
  by (simp add: drop_bit_eq_div)

lemma setitem_in_range:
  "0 \<le> p \<Longrightarrow> p < int (length rom) \<Longrightarrow> bytearray_setitem rom p v = Inr (rom[nat p := v])"
  by (simp add: bytearray_setitem_def Let_def)

lemma computeBlockCount_ceiling:
  "n \<le> computeBlockCount n * BLOCK_SIZE \<and> computeBlockCount n * BLOCK_SIZE < n + BLOCK_SIZE"
proof -
  have "(n + 8191) div 8192 * 8192 + (n + 8191) mod 8192 = n + 8191" by simp
  moreover have "(n + 8191) mod 8192 < 8192" by simp
  ultimately show ?thesis
    unfolding computeBlockCount_def BLOCK_SIZE_def by linarith
qed

lemma updateBlockCountHeader_only_index_error:
  "updateBlockCountHeader rom pos effectiveSize = Inl e \<Longrightarrow> e = IndexError"
  by (auto simp: updateBlockCountHeader_def bytearray_setitem_def Let_def split: if_splits sum.splits)

lemma updateBlockCountHeader_stores_low_byte:
  "0 \<le> pos \<Longrightarrow> pos < int (length rom) \<Longrightarrow>
   updateBlockCountHeader rom pos effectiveSize =
     Inr (rom[nat pos := computeBlockCount effectiveSize mod 256], computeBlockCount effectiveSize)"
  by (simp add: updateBlockCountHeader_def setitem_in_range and_255_nat Let_def)

text \<open>
  Claim C3 at an image of 2 MiB with base offset 0: the effective size is 256 blocks,
  \<^verbatim>\<open>updateBlockCountHeader\<close> raises nothing and writes \<^verbatim>\<open>newBlocks & 0xFF\<close>, the
  byte 0, at the header position: the count modulo 256.
\<close>

theorem updateBlockCountHeader_truncates_block_count:
  "computeBlockCount 2097152 = 256
   \<and> updateBlockCountHeader (replicate 2097152 0xFF) 3 2097152
       = Inr ((replicate 2097152 0xFF)[3 := 0], 256)"
proof -
  have c: "computeBlockCount 2097152 = 256"
    by (simp add: computeBlockCount_def BLOCK_SIZE_def)
  have "updateBlockCountHeader (replicate 2097152 0xFF) 3 2097152
       = Inr ((replicate 2097152 0xFF)[nat 3 := computeBlockCount 2097152 mod 256],
              computeBlockCount 2097152)"
    by (rule updateBlockCountHeader_stores_low_byte) simp_all
  then show ?thesis unfolding c by simp
qed

lemma fields_apart:
  "(i::nat) \<noteq> j \<Longrightarrow>
     f + i * 6 + 4 \<noteq> f + j * 6 + 4 \<and> f + i * 6 + 4 \<noteq> f + j * 6 + 5
   \<and> f + i * 6 + 5 \<noteq> f + j * 6 + 4 \<and> f + i * 6 + 5 \<noteq> f + j * 6 + 5"
  by arith

lemma setitem_at:
  "k < length rom \<Longrightarrow> p = int k \<Longrightarrow> bytearray_setitem rom p v = Inr (rom[k := v])"
  by (simp add: bytearray_setitem_def Let_def)

lemma patch_index_step:
  assumes "i < length offs" and "f + i * 6 + 5 < length rom"
  shows "patch_index_loop (i # rest) rom (int f) offs =
           patch_index_loop rest
             (rom[f + i * 6 + 4 := (offs ! i AND 0xFFFF) AND 0xFF,
                  f + i * 6 + 5 := drop_bit 8 (offs ! i AND 0xFFFF) AND 0xFF]) (int f) offs"
proof -
  let ?lo = "(offs ! i AND 0xFFFF) AND 0xFF" and ?hi = "drop_bit 8 (offs ! i AND 0xFFFF) AND 0xFF"
  have s1: "bytearray_setitem rom (int f + int i * int CARD_ENTRY_SIZE + 4) ?lo
              = Inr (rom[f + i * 6 + 4 := ?lo])"
    by (rule setitem_at) (use assms(2) in \<open>simp_all add: CARD_ENTRY_SIZE_def\<close>)
  have s2: "bytearray_setitem (rom[f + i * 6 + 4 := ?lo])
              (int f + int i * int CARD_ENTRY_SIZE + 4 + 1) ?hi
              = Inr (rom[f + i * 6 + 4 := ?lo, f + i * 6 + 5 := ?hi])"
    by (rule setitem_at) (use assms(2) in \<open>simp_all add: CARD_ENTRY_SIZE_def\<close>)
  show ?thesis
    by (simp only: patch_index_loop.simps Let_def s1 s2 sum.case assms(1) [THEN eqTrueI]
        not_True_eq_False if_False)
qed

lemma patch_index_loop_ok:
  assumes "distinct idxs"
    and "\<forall>i \<in> set idxs. i < length offs \<and> f + i * 6 + 5 < length rom"
  shows "\<exists>rom'. patch_index_loop idxs rom (int f) offs = Inr rom'
           \<and> length rom' = length rom
           \<and> (\<forall>i \<in> set idxs. rom' ! (f + i * 6 + 4) = offs ! i mod 65536 mod 256
                              \<and> rom' ! (f + i * 6 + 5) = offs ! i mod 65536 div 256)
           \<and> (\<forall>k < length rom. (\<forall>i \<in> set idxs. k \<noteq> f + i * 6 + 4 \<and> k \<noteq> f + i * 6 + 5)
                  \<longrightarrow> rom' ! k = rom ! k)"
  using assms
proof (induction idxs arbitrary: rom)
  case Nil
  then show ?case by simp
next
  case (Cons i rest)
  define lo where "lo = (offs ! i AND 0xFFFF) AND 0xFF"
  define hi where "hi = drop_bit 8 (offs ! i AND 0xFFFF) AND 0xFF"
  define rom2 where "rom2 = rom[f + i * 6 + 4 := lo, f + i * 6 + 5 := hi]"
  have lo: "lo = offs ! i mod 65536 mod 256"
    by (simp only: lo_def and_65535_nat and_255_nat)
  have "offs ! i mod 65536 div 256 < 256" by simp
  then have "offs ! i mod 65536 div 256 mod 256 = offs ! i mod 65536 div 256"
    by (rule mod_less)
  then have hi: "hi = offs ! i mod 65536 div 256"
    by (simp only: hi_def and_65535_nat and_255_nat drop_bit_8_nat)
  have il: "i < length offs" and ir: "f + i * 6 + 5 < length rom"
    using Cons.prems(2) by auto
  have step: "patch_index_loop (i # rest) rom (int f) offs = patch_index_loop rest rom2 (int f) offs"
    unfolding rom2_def lo_def hi_def by (rule patch_index_step [OF il ir])
  have l2: "length rom2 = length rom" by (simp add: rom2_def)
  have d: "distinct rest" and ni: "i \<notin> set rest" using Cons.prems(1) by auto
  have b: "\<forall>j \<in> set rest. j < length offs \<and> f + j * 6 + 5 < length rom2"
    using Cons.prems(2) l2 by auto
  from Cons.IH [OF d b] obtain rom' where
    r: "patch_index_loop rest rom2 (int f) offs = Inr rom'"
    and l: "length rom' = length rom2"
    and v: "\<forall>j \<in> set rest. rom' ! (f + j * 6 + 4) = offs ! j mod 65536 mod 256
                              \<and> rom' ! (f + j * 6 + 5) = offs ! j mod 65536 div 256"
    and fr: "\<forall>k < length rom2. (\<forall>j \<in> set rest. k \<noteq> f + j * 6 + 4 \<and> k \<noteq> f + j * 6 + 5)
                  \<longrightarrow> rom' ! k = rom2 ! k"
    by blast
  have apart: "f + i * 6 + 4 \<noteq> f + j * 6 + 4 \<and> f + i * 6 + 4 \<noteq> f + j * 6 + 5
                  \<and> f + i * 6 + 5 \<noteq> f + j * 6 + 4 \<and> f + i * 6 + 5 \<noteq> f + j * 6 + 5"
    if "j \<in> set rest" for j
    using that ni fields_apart [of i j f] by blast
  have k4: "f + i * 6 + 4 < length rom2" and k5: "f + i * 6 + 5 < length rom2"
    using ir l2 by simp_all
  have "rom' ! (f + i * 6 + 4) = rom2 ! (f + i * 6 + 4)"
    using fr k4 apart by blast
  then have h4: "rom' ! (f + i * 6 + 4) = lo"
    using ir by (simp add: rom2_def)
  have "rom' ! (f + i * 6 + 5) = rom2 ! (f + i * 6 + 5)"
    using fr k5 apart by blast
  then have h5: "rom' ! (f + i * 6 + 5) = hi"
    using ir by (simp add: rom2_def)
  have frame: "rom' ! k = rom ! k"
    if "k < length rom" "\<forall>j \<in> set (i # rest). k \<noteq> f + j * 6 + 4 \<and> k \<noteq> f + j * 6 + 5" for k
  proof -
    have "rom' ! k = rom2 ! k" using fr that l2 by simp
    then show ?thesis using that by (simp add: rom2_def)
  qed
  have vals: "\<forall>j \<in> set (i # rest). rom' ! (f + j * 6 + 4) = offs ! j mod 65536 mod 256
                              \<and> rom' ! (f + j * 6 + 5) = offs ! j mod 65536 div 256"
    using v h4 h5 lo hi by simp
  have "patch_index_loop (i # rest) rom (int f) offs = Inr rom'" using step r by simp
  moreover have "length rom' = length rom" using l l2 by simp
  ultimately show ?case using vals frame by blast
qed

lemma encode_loop_replicate:
  assumes "remap [c] = Some v" and "0 \<le> v" and "v < 256"
  shows "encode_loop (replicate n c) remap True out [] = Inr (out @ replicate n (nat v), [])"
  using assms by (induction n arbitrary: out) (simp_all add: replicate_app_Cons_same)

lemma encodeName_replicate:
  assumes "remap [c] = Some v" and "0 \<le> v" and "v < 256" and "replacements c = None"
  shows "encodeName (replicate n c) remap True = Inr (replicate n (nat v))"
  using encode_loop_replicate [of remap c v n "[]"] assms
  by (simp add: encodeName_def normalizeName_def)

text \<open>
  Claim C2 at a table longer than 64 KiB: 722 names of which the first has 65536 mapped
  characters. The builder records the offset 65539 for the second name, no step raises,
  and \<^verbatim>\<open>patchCardIndexNameOffsets\<close> stores \<^verbatim>\<open>offset & 0xFFFF\<close>: the field of the
  second record (first card at file offset 4) holds 03 00, the offset modulo 65536.
\<close>

theorem index_patch_truncates_long_table:
  "\<exists>blob offsets rom'.
      buildNameBlobAndOffsets (replicate 65536 0x41 # replicate 721 [0x41]) [[0x41] \<mapsto> 0x41]
        = Inr (blob, offsets)
      \<and> offsets ! 1 = 65539
      \<and> patchCardIndexNameOffsets (replicate 8192 0) 4 offsets = Inr rom'
      \<and> rom' ! 14 = 3 \<and> rom' ! 15 = 0"
proof -
  let ?remap = "[[0x41::nat] \<mapsto> 0x41::int]"
  let ?names = "replicate 65536 (0x41::nat) # replicate 721 [0x41]"
  have nr: "replacements 0x41 = None" by (simp add: replacements_def)
  have e: "encodeName (replicate n 0x41) ?remap True = Inr (replicate n 0x41)" for n
    using encodeName_replicate [of ?remap "0x41" "0x41" n] nr by simp
  have e1: "encodeName [0x41] ?remap True = Inr [0x41]"
    using e [of 1] by simp
  have all: "\<forall>n\<in>set ?names. \<exists>enc. encodeName n ?remap True = Inr enc"
    using e e1 by auto
  have len: "0 + length ?names \<le> length (replicate EXPECTED_CARD_COUNT (0::nat))"
    by (simp add: EXPECTED_CARD_COUNT_def)
  from build_loop_result [OF all len, of NAME_MARKER] obtain offs where
    r: "build_loop 0 ?names ?remap NAME_MARKER (replicate EXPECTED_CARD_COUNT 0) =
          Inr (NAME_MARKER @ concat (map (\<lambda>n. encoded ?remap n @ [0x00]) ?names), offs)"
    and l: "length offs = length (replicate EXPECTED_CARD_COUNT (0::nat))"
    and v: "\<forall>j < length (replicate EXPECTED_CARD_COUNT (0::nat)). offs ! j =
                (if 0 < j \<and> 0 \<le> j \<and> j < 0 + length ?names
                 then length NAME_MARKER + length (concat (map (\<lambda>n. encoded ?remap n @ [0x00])
                                                    (take (j - 0) ?names)))
                 else replicate EXPECTED_CARD_COUNT 0 ! j)"
    by blast
  have l': "length offs = 722" using l by (simp add: EXPECTED_CARD_COUNT_def)
  obtain blob where b: "buildNameBlobAndOffsets ?names ?remap = Inr (blob, offs)"
    using r by (simp add: buildNameBlobAndOffsets_def Let_def)
  have enc0: "encoded ?remap (replicate 65536 0x41) = replicate 65536 0x41"
    using e [of 65536] by (simp add: encoded_def)
  have "offs ! 1 = length NAME_MARKER + length (concat (map (\<lambda>n. encoded ?remap n @ [0x00])
                                                    (take 1 ?names)))"
    using v by (simp add: EXPECTED_CARD_COUNT_def)
  then have o1: "offs ! 1 = 65539"
    using enc0 by (simp add: NAME_MARKER_def)
  have d: "distinct [0..<EXPECTED_CARD_COUNT]" by simp
  have bnd: "\<forall>i \<in> set [0..<EXPECTED_CARD_COUNT].
               i < length offs \<and> 4 + i * 6 + 5 < length (replicate 8192 (0::nat))"
    using l' by (auto simp: EXPECTED_CARD_COUNT_def)
  from patch_index_loop_ok [OF d bnd] obtain rom' where
    p: "patch_index_loop [0..<EXPECTED_CARD_COUNT] (replicate 8192 0) (int 4) offs = Inr rom'"
    and pv: "\<forall>i \<in> set [0..<EXPECTED_CARD_COUNT].
               rom' ! (4 + i * 6 + 4) = offs ! i mod 65536 mod 256
             \<and> rom' ! (4 + i * 6 + 5) = offs ! i mod 65536 div 256"
    by blast
  have p': "patchCardIndexNameOffsets (replicate 8192 0) 4 offs = Inr rom'"
    using p by (simp add: patchCardIndexNameOffsets_def)
  have "1 \<in> set [0..<EXPECTED_CARD_COUNT]" by (simp add: EXPECTED_CARD_COUNT_def)
  with pv have "rom' ! (4 + 1 * 6 + 4) = offs ! 1 mod 65536 mod 256
             \<and> rom' ! (4 + 1 * 6 + 5) = offs ! 1 mod 65536 div 256"
    by blast
  then have "rom' ! 14 = 3 \<and> rom' ! 15 = 0"
    unfolding o1 by simp
  then show ?thesis using b o1 p' by blast
qed

section \<open>The checks of the standalone patcher\<close>

text \<open>
  The older script refuses the two overflows that rom\_names.py lets through: on the
  inputs of the two theorems above it exits before it writes anything.
\<close>

lemma NUM_CARDS_count: "NUM_CARDS = 722"
  by (simp add: NUM_CARDS_def CARD_TABLE_FILE_END_def CARD_TABLE_FILE_START_def
      CARD_TABLE_ROM_END_def CARD_TABLE_ROM_START_def ROM_BASE_def BYTES_PER_CARD_def)

lemma card_table_loop_checks_offsets:
  "card_table_loop idxs data offs = Inr data' \<Longrightarrow>
     \<forall>i \<in> set idxs. i < length offs \<and> offs ! i \<le> 0xFFFF"
  by (induction idxs arbitrary: data) (auto simp: Let_def split: if_splits)

lemma pad_and_set_block_count_checked:
  assumes "pad_and_set_block_count data = Inr data'"
  shows "\<exists>blocks \<le> 255. data' ! 3 = blocks \<and> length data' = blocks * BLOCK_SIZE"
proof -
  define blocks where "blocks = (length data + BLOCK_SIZE - 1) div BLOCK_SIZE"
  define data5 where "data5 = (if blocks * BLOCK_SIZE > length data
                 then data @ replicate (blocks * BLOCK_SIZE - length data) 0x00 else data)"
  have "(length data + 8191) div 8192 * 8192 + (length data + 8191) mod 8192 = length data + 8191"
    by simp
  moreover have "(length data + 8191) mod 8192 < 8192" by simp
  ultimately have ge: "length data \<le> blocks * BLOCK_SIZE"
    unfolding blocks_def BLOCK_SIZE_def by linarith
  have l5: "length data5 = blocks * BLOCK_SIZE" using ge by (simp add: data5_def)
  have unfolded: "pad_and_set_block_count data =
      (if blocks * BLOCK_SIZE div BLOCK_SIZE > 255 then Inl (SystemExit BlockCountOverflow)
       else bytearray_setitem data5 (int HEADER_BLOCK_BYTE) (blocks AND 0xFF))"
    by (simp only: pad_and_set_block_count_def Let_def blocks_def data5_def)
  have b255: "blocks \<le> 255"
    using assms unfolded by (simp add: BLOCK_SIZE_def split: if_splits)
  have res: "bytearray_setitem data5 (int HEADER_BLOCK_BYTE) (blocks AND 0xFF) = Inr data'"
    using assms unfolded by (simp split: if_splits)
  then have in_range: "3 < length data5"
    by (simp add: bytearray_setitem_def HEADER_BLOCK_BYTE_def Let_def split: if_splits)
  then have "data' = data5[3 := blocks AND 0xFF]"
    using res by (simp add: bytearray_setitem_def HEADER_BLOCK_BYTE_def Let_def)
  then have "data' ! 3 = blocks \<and> length data' = blocks * BLOCK_SIZE"
    using in_range l5 b255 by (simp add: and_255_nat)
  then show ?thesis using b255 by blast
qed

lemma card_table_loop_ok:
  assumes "\<forall>i \<in> set idxs. i < length offs \<and> offs ! i \<le> 0xFFFF
             \<and> CARD_TABLE_FILE_START + i * BYTES_PER_CARD + 6 \<le> length data"
  shows "\<exists>data'. card_table_loop idxs data offs = Inr data' \<and> length data' = length data"
  using assms
proof (induction idxs arbitrary: data)
  case Nil
  then show ?case by simp
next
  case (Cons i rest)
  define p where "p = CARD_TABLE_FILE_START + i * BYTES_PER_CARD + 4"
  define d where "d = bytearray_setslice data (int p) (int p + 2) (le16 (offs ! i))"
  have n: "p + 2 \<le> length data" using Cons.prems by (simp add: p_def)
  have l16: "length (le16 (offs ! i)) = 2" by (simp add: le16_def)
  have "length (bytearray_setslice data (int p) (int p + int (length (le16 (offs ! i))))
          (le16 (offs ! i))) = length data"
    by (rule setslice_in_range_keeps_length) (use n l16 in simp_all)
  then have l: "length d = length data" by (simp add: d_def l16)
  have "\<forall>j \<in> set rest. j < length offs \<and> offs ! j \<le> 0xFFFF
             \<and> CARD_TABLE_FILE_START + j * BYTES_PER_CARD + 6 \<le> length d"
    using Cons.prems l by simp
  from Cons.IH [OF this] obtain data' where
    r: "card_table_loop rest d offs = Inr data'" and l': "length data' = length d" by blast
  have "card_table_loop (i # rest) data offs = card_table_loop rest d offs"
    using Cons.prems by (simp add: Let_def d_def p_def)
  then show ?case using r l l' by simp
qed

lemma name_blob_loop_result:
  assumes "name_blob_loop idx names acc offs cur = (b, os)" and "cur \<le> length acc"
  shows "b = acc @ concat (map (\<lambda>n. ascii_or_latin1 n @ [0x00]) names)
       \<and> length os = length offs + length names
       \<and> (\<forall>k < length os. length offs \<le> k \<longrightarrow> os ! k \<le> length b)
       \<and> (\<forall>k < length offs. os ! k = offs ! k)"
  using assms
proof (induction names arbitrary: idx acc offs cur)
  case Nil
  then show ?case by simp
next
  case (Cons name rest)
  define acc' where "acc' = acc @ ascii_or_latin1 name @ [0x00]"
  define offs' where "offs' = (if idx = 0 then offs @ [0] else offs @ [cur])"
  have r: "name_blob_loop (idx + 1) rest acc' offs' (length acc') = (b, os)"
    using Cons.prems(1) by (simp add: Let_def acc'_def offs'_def)
  have ih: "b = acc' @ concat (map (\<lambda>n. ascii_or_latin1 n @ [0x00]) rest)
       \<and> length os = length offs' + length rest
       \<and> (\<forall>k < length os. length offs' \<le> k \<longrightarrow> os ! k \<le> length b)
       \<and> (\<forall>k < length offs'. os ! k = offs' ! k)"
    by (rule Cons.IH [OF r le_refl])
  have b: "b = acc' @ concat (map (\<lambda>n. ascii_or_latin1 n @ [0x00]) rest)"
    and l: "length os = length offs' + length rest"
    and u: "\<forall>k < length os. length offs' \<le> k \<longrightarrow> os ! k \<le> length b"
    and k: "\<forall>k < length offs'. os ! k = offs' ! k"
    using ih by blast+
  have lo: "length offs' = length offs + 1" by (simp add: offs'_def)
  have new: "offs' ! length offs \<le> length b"
    using Cons.prems(2) b by (simp add: offs'_def acc'_def)
  have up: "os ! j \<le> length b" if "j < length os" "length offs \<le> j" for j
  proof (cases "j = length offs")
    case True
    then have "os ! j = offs' ! length offs" using k lo by simp
    then show ?thesis using new by simp
  next
    case False
    then have "length offs' \<le> j" using that lo by simp
    then show ?thesis using u that by blast
  qed
  have keep: "os ! j = offs ! j" if "j < length offs" for j
  proof -
    have "os ! j = offs' ! j" using k that lo by simp
    then show ?thesis using that by (simp add: offs'_def nth_append)
  qed
  have "b = acc @ concat (map (\<lambda>n. ascii_or_latin1 n @ [0x00]) (name # rest))"
    using b by (simp add: acc'_def)
  moreover have "length os = length offs + length (name # rest)" using l lo by simp
  ultimately show ?case using up keep by blast
qed

lemma namepatch_image_checks_header:
  assumes "namepatch_image list_lines gme = Inr data'"
  shows "\<exists>blocks \<le> 255. data' ! 3 = blocks \<and> length data' = blocks * BLOCK_SIZE"
proof -
  from assms obtain data4 where "pad_and_set_block_count data4 = Inr data'"
    by (simp add: namepatch_image_def Let_def split: if_splits prod.splits sum.splits)
  then show ?thesis by (rule pad_and_set_block_count_checked)
qed

lemma ascii_or_latin1_replicate_A: "ascii_or_latin1 (replicate n 0x41) = replicate n 0x41"
  by (simp add: ascii_or_latin1_def list_all_iff)

lemma namepatch_exits_on_long_table:
  "namepatch_image (replicate 65536 0x41 # replicate 721 [0x41]) (replicate 8192 0)
     = Inl (SystemExit (NamesBlobTooLarge 66981))"
proof -
  let ?names = "replicate 65536 (0x41::nat) # replicate 721 [0x41]"
  have names: "filter (\<lambda>n. n \<noteq> [])
                 (map (\<lambda>ln. rev (dropWhile (\<lambda>c. c = 0x0D \<or> c = 0x0A) (rev ln))) ?names) = ?names"
    by simp
  obtain b os where r: "name_blob_loop 0 ?names START_OF_TEXT [] (length START_OF_TEXT) = (b, os)"
    by (cases "name_blob_loop 0 ?names START_OF_TEXT [] (length START_OF_TEXT)")
  have a1: "ascii_or_latin1 [0x41] = [0x41]"
    using ascii_or_latin1_replicate_A [of 1] by simp
  have "b = START_OF_TEXT @ concat (map (\<lambda>n. ascii_or_latin1 n @ [0x00]) ?names)"
    using name_blob_loop_result [OF r] by simp
  then have lb: "length b = 66981"
    by (simp add: START_OF_TEXT_def ascii_or_latin1_replicate_A a1 length_concat sum_list_replicate)
  show ?thesis
    unfolding namepatch_image_def names Let_def
    using r lb by (simp add: NUM_CARDS_count)
qed

lemma pad_and_set_block_count_overflow:
  "255 * BLOCK_SIZE < length data \<Longrightarrow>
     pad_and_set_block_count data = Inl (SystemExit BlockCountOverflow)"
proof -
  assume a: "255 * BLOCK_SIZE < length data"
  have "(256 * 8192 :: nat) \<le> length data + 8191"
    using a by (simp add: BLOCK_SIZE_def)
  then have "(256 * 8192 :: nat) div 8192 \<le> (length data + 8191) div 8192"
    by (rule div_le_mono)
  then have "255 < (length data + BLOCK_SIZE - 1) div BLOCK_SIZE"
    by (simp add: BLOCK_SIZE_def)
  then show ?thesis
    by (simp add: pad_and_set_block_count_def Let_def BLOCK_SIZE_def)
qed

lemma namepatch_exits_on_block_overflow:
  "namepatch_image (replicate 722 [0x41]) (replicate 2097152 0)
     = Inl (SystemExit BlockCountOverflow)"
proof -
  let ?names = "replicate 722 [0x41::nat]"
  let ?gme = "replicate 2097152 (0::nat)"
  have names: "filter (\<lambda>n. n \<noteq> [])
                 (map (\<lambda>ln. rev (dropWhile (\<lambda>c. c = 0x0D \<or> c = 0x0A) (rev ln))) ?names) = ?names"
    by simp
  obtain b os where r: "name_blob_loop 0 ?names START_OF_TEXT [] (length START_OF_TEXT) = (b, os)"
    by (cases "name_blob_loop 0 ?names START_OF_TEXT [] (length START_OF_TEXT)")
  have a1: "ascii_or_latin1 [0x41] = [0x41]"
    using ascii_or_latin1_replicate_A [of 1] by simp
  have res: "b = START_OF_TEXT @ concat (map (\<lambda>n. ascii_or_latin1 n @ [0x00]) ?names)
       \<and> length os = length ([]::nat list) + length ?names
       \<and> (\<forall>k < length os. length ([]::nat list) \<le> k \<longrightarrow> os ! k \<le> length b)
       \<and> (\<forall>k < length ([]::nat list). os ! k = [] ! k)"
    by (rule name_blob_loop_result [OF r le_refl])
  have lb: "length b = 1446"
    using res by (simp add: START_OF_TEXT_def a1 length_concat sum_list_replicate)
  have los: "length os = 722" using res by simp
  have bound: "\<forall>k < 722. os ! k \<le> 0xFFFF"
    using res lb los by fastforce
  define data2 where
    "data2 = bytearray_setslice ?gme (int NAME_LIST_FILE_OFF) (int (NAME_LIST_FILE_OFF + length b)) b"
  define data3 where
    "data3 = bytearray_setslice data2 (int LOOKUP_PTR_FILE_OFF) (int LOOKUP_PTR_FILE_OFF + 4)
               (le32 NAME_LIST_ROM_ADDR)"
  have off: "NAME_LIST_FILE_OFF = 0x8000"
    by (simp add: NAME_LIST_FILE_OFF_def NAME_LIST_ROM_ADDR_def ROM_BASE_def)
  have ptr: "LOOKUP_PTR_FILE_OFF = 0x2A7C"
    by (simp add: LOOKUP_PTR_FILE_OFF_def LOOKUP_PTR_ROM_ADDR_def ROM_BASE_def)
  have tab: "CARD_TABLE_FILE_START = 0x4C0C"
    by (simp add: CARD_TABLE_FILE_START_def CARD_TABLE_ROM_START_def ROM_BASE_def)
  have "length (bytearray_setslice ?gme (int NAME_LIST_FILE_OFF)
                  (int NAME_LIST_FILE_OFF + int (length b)) b) = length ?gme"
    by (rule setslice_in_range_keeps_length) (simp_all add: off lb)
  then have l2: "length data2 = 2097152" by (simp add: data2_def)
  have l32: "length (le32 NAME_LIST_ROM_ADDR) = 4" by (simp add: le32_def)
  have "length (bytearray_setslice data2 (int LOOKUP_PTR_FILE_OFF)
                  (int LOOKUP_PTR_FILE_OFF + int (length (le32 NAME_LIST_ROM_ADDR)))
                  (le32 NAME_LIST_ROM_ADDR)) = length data2"
    by (rule setslice_in_range_keeps_length) (simp_all add: ptr l2 l32)
  then have l3: "length data3 = 2097152" by (simp add: data3_def l32 l2)
  have "\<forall>i \<in> set [0..<NUM_CARDS]. i < length os \<and> os ! i \<le> 0xFFFF
             \<and> CARD_TABLE_FILE_START + i * BYTES_PER_CARD + 6 \<le> length data3"
    using bound los l3 by (auto simp: NUM_CARDS_count tab BYTES_PER_CARD_def)
  from card_table_loop_ok [OF this] obtain data4 where
    c: "card_table_loop [0..<NUM_CARDS] data3 os = Inr data4" and l4: "length data4 = 2097152"
    using l3 by auto
  have p: "pad_and_set_block_count data4 = Inl (SystemExit BlockCountOverflow)"
    by (rule pad_and_set_block_count_overflow) (simp add: l4 BLOCK_SIZE_def)
  have small: "\<not> int (length b) - 1 > 0xFFFF" using lb by simp
  have fits: "\<not> length ?gme < NAME_LIST_FILE_OFF"
     "\<not> length ?gme < NAME_LIST_FILE_OFF + length b"
    by (simp_all add: off lb)
  show ?thesis
    unfolding namepatch_image_def names Let_def
    using r small fits c p
    by (simp add: NUM_CARDS_count data2_def data3_def)
qed

end
